theory Spec2Isabelle
  imports Complex_Main
begin

section \<open>Surface hopping: the data of \<open>mqc/sh.py\<close> and \<open>mqc_qed/sh.py\<close>\<close>

text \<open>
  Both files define a class \<open>SH\<close> with the routines \<open>hop_prob\<close>, \<open>hop_check\<close> and
  \<open>evaluate_hop\<close>; the cavity-coupled class of \<open>mqc_qed/sh.py\<close> adds the decoherence
  corrections. The routines of the cavity-coupled class carry the suffix \<open>_qed\<close> here.

  Python floats and numpy's float64 are modelled by the reals, complex128 by the complex
  numbers: rounding, overflow and the sign of zero are outside the model. numpy answers
  a division by zero or the square root of a negative number with \<open>inf\<close> or \<open>nan\<close> and
  carries on. Where such a value is stored in the velocities, probabilities or
  coefficients, the model stops with \<open>NonFinite\<close> and follows that run no further.
  \<open>ValueError\<close> is numpy's refusal of operands whose shapes differ, \<open>IndexError\<close>
  Python's refusal of an index outside a list.
\<close>

datatype py_error = IndexError | ValueError | NonFinite

text \<open>
  A float64 that may be infinite or not a number, for the two places where the source
  computes on with such a value and can reach a finite one again: the quotient that
  \<open>hop_prob\<close> clamps, and the exponent of the decay in \<open>correct_dec_edc\<close>. A zero divisor
  is the float \<open>+0\<close> (a population, an absolute value).
\<close>

datatype xreal = Fin real | PInf | MInf | NaN

fun xdiv :: "xreal \<Rightarrow> xreal \<Rightarrow> xreal" where
  "xdiv (Fin a) (Fin b) =
     (if b \<noteq> 0 then Fin (a / b) else if a > 0 then PInf else if a < 0 then MInf else NaN)"
| "xdiv (Fin a) PInf = Fin 0"
| "xdiv (Fin a) MInf = Fin 0"
| "xdiv PInf (Fin b) = (if b < 0 then MInf else PInf)"
| "xdiv MInf (Fin b) = (if b < 0 then PInf else MInf)"
| "xdiv _ _ = NaN"

fun xadd :: "xreal \<Rightarrow> xreal \<Rightarrow> xreal" where
  "xadd (Fin a) (Fin b) = Fin (a + b)"
| "xadd NaN _ = NaN"
| "xadd _ NaN = NaN"
| "xadd PInf MInf = NaN"
| "xadd MInf PInf = NaN"
| "xadd PInf _ = PInf"
| "xadd _ PInf = PInf"
| "xadd MInf _ = MInf"
| "xadd _ MInf = MInf"

fun xexp :: "xreal \<Rightarrow> xreal" where
  "xexp (Fin a) = Fin (exp a)"
| "xexp PInf = PInf"
| "xexp MInf = Fin 0"
| "xexp NaN = NaN"

fun finite_value :: "xreal \<Rightarrow> py_error + real" where
  "finite_value (Fin a) = Inr a"
| "finite_value _ = Inl NonFinite"

text \<open>
  \<open>vel_rescale\<close>/\<open>hop_rescale\<close> and \<open>vel_reject\<close>/\<open>hop_reject\<close> are strings; the
  constructor raises \<open>ValueError\<close> unless they are one of the names below, so the
  routines only ever see these values.
\<close>

datatype rescale = Energy | Velocity | Momentum | Augment

datatype reject = Keep | Reverse

datatype elec = Coefficient | Density

text \<open>
  The lines appended to \<open>self.event["HOP"]\<close>, one constructor for each message text:
  \<^item> \<open>RejectKinetic i j\<close>: "Reject hopping: smaller kinetic energy than potential energy
    difference between i and j";
  \<^item> \<open>RejectKeep\<close>: "Reject hopping: no solution to find rescale factor, velocity is not
    changed";
  \<^item> \<open>RejectReverse\<close>: "Reject hopping: no solution to find rescale factor, velocity is
    reversed along coupling direction";
  \<^item> \<open>AcceptSimple\<close>: "Accept hopping: no solution to find rescale factor, but velocity
    is simply rescaled";
  \<^item> \<open>AcceptHop i j\<close>: "Accept hopping: hop i -> j";
  \<^item> \<open>TrivialHop i j\<close>: "Trivial crossing hopping: hop i -> j".
\<close>

datatype hop_event =
    RejectKinetic nat nat
  | RejectKeep
  | RejectReverse
  | AcceptSimple
  | AcceptHop nat nat
  | TrivialHop nat nat

text \<open>
  What the routines read and never write: the settings of the \<open>SH\<close> object and the data
  of the molecule (\<open>self.mol\<close>) or polariton (\<open>self.pol\<close>) object that the backend has
  filled in. \<open>nst\<close> is \<open>mol.nst\<close> or \<open>pol.pst\<close>; \<open>energy i\<close> is \<open>states[i].energy\<close> or
  \<open>pol_states[i].energy\<close>; \<open>nac i j\<close> is the array \<open>nac[i, j]\<close> or \<open>pnac[i, j]\<close>, one row
  for each atom; \<open>nacme\<close> is \<open>nacme\<close> or \<open>pnacme\<close>. \<open>eps\<close> is imported from the module
  \<open>misc\<close>, which is not among the sources, and is a parameter here.
\<close>

record env =
  nst :: nat
  nat_qm :: nat
  mass :: "real list"
  energy :: "nat \<Rightarrow> real"
  nac :: "nat \<Rightarrow> nat \<Rightarrow> real list list"
  nacme :: "nat \<Rightarrow> nat \<Rightarrow> real"
  dt :: real
  eps :: real
  vel_rescale :: rescale
  vel_reject :: reject
  elec_object :: elec
  edc_parameter :: real

text \<open>The \<open>qed\<close> object handed to the routines of the cavity-coupled class.\<close>

record qed_obj =
  l_trivial :: bool
  trivial_state :: nat
  unitary :: "nat \<Rightarrow> nat \<Rightarrow> real"
  ham_d :: "nat \<Rightarrow> nat \<Rightarrow> real"

text \<open>
  What the routines write: the fields of the \<open>SH\<close> object, the velocities, kinetic
  energy, density matrix (\<open>mol.rho\<close> or \<open>pol.rho_a\<close>) and coefficients
  (\<open>pol_states[i].coef_a\<close>) of the molecule, and the caller's list \<open>bo_list\<close> or
  \<open>pol_list\<close>, which the routines change in place.
\<close>

record sh_state =
  rstate :: nat
  rstate_old :: nat
  rand :: real
  prob :: "real list"
  acc_prob :: "real list"
  l_hop :: bool
  l_reject :: bool
  vel :: "real list list"
  ekin_qm :: real
  rho :: "nat \<Rightarrow> nat \<Rightarrow> complex"
  coef :: "nat \<Rightarrow> complex"
  event :: "hop_event list"
  bo_list :: "nat list"

section \<open>The state selector: \<open>hop_check\<close>\<close>

text \<open>
  \<open>bo_list[0] = v\<close>: Python raises \<open>IndexError\<close> on an empty list.
\<close>

definition set_first :: "nat list \<Rightarrow> nat \<Rightarrow> py_error + nat list" where
  "set_first bl v = (case bl of [] \<Rightarrow> Inl IndexError | _ # rest \<Rightarrow> Inr (v # rest))"

text \<open>
  The loop \<open>for ist in range(nst)\<close> of \<open>hop_check\<close>, over the indices still to visit.
  The test \<open>ist == self.rstate\<close> reads the running state as the loop has left it, and
  the loop does not stop at a match. The conjunction \<open>and\<close> reads \<open>acc_prob[ist + 1]\<close>
  only when the first comparison holds; numpy raises \<open>IndexError\<close> outside the array.
\<close>

fun hop_check_loop :: "nat list \<Rightarrow> sh_state \<Rightarrow> py_error + sh_state" where
  "hop_check_loop [] s = Inr s"
| "hop_check_loop (ist # ists) s =
     (if ist = rstate s then hop_check_loop ists s
      else if length (acc_prob s) \<le> ist then Inl IndexError
      else if rand s > acc_prob s ! ist then
        (if length (acc_prob s) \<le> ist + 1 then Inl IndexError
         else if rand s \<le> acc_prob s ! (ist + 1) then
           (case set_first (bo_list s) ist of
              Inl err \<Rightarrow> Inl err
            | Inr bl \<Rightarrow> hop_check_loop ists (s\<lparr>l_hop := True, rstate := ist, bo_list := bl\<rparr>))
         else hop_check_loop ists s)
      else hop_check_loop ists s)"

text \<open>
  \<open>hop_check\<close> of both classes (the cavity-coupled one names the list \<open>pol_list\<close> and the
  number of states \<open>pol.pst\<close>). The draw \<open>random.random()\<close> is the argument \<open>r\<close>.
\<close>

definition hop_check :: "env \<Rightarrow> real \<Rightarrow> sh_state \<Rightarrow> py_error + sh_state" where
  "hop_check e r s = hop_check_loop [0..<nst e] (s\<lparr>rand := r\<rparr>)"

text \<open>
  The test of the loop for a candidate \<open>i\<close>: it is not the running state, and the draw
  lies above \<open>acc_prob[i]\<close> and not above \<open>acc_prob[i + 1]\<close>.
\<close>

definition in_interval :: "sh_state \<Rightarrow> nat \<Rightarrow> bool" where
  "in_interval s i =
     (i \<noteq> rstate s \<and> acc_prob s ! i < rand s \<and> rand s \<le> acc_prob s ! (i + 1))"

section \<open>The rescaling solver and the frustration policy: \<open>evaluate_hop\<close>\<close>

text \<open>\<open>np.sum(u * v)\<close> for two rows and \<open>np.sum(u ** 2.)\<close> for one.\<close>

definition dot :: "real list \<Rightarrow> real list \<Rightarrow> real" where
  "dot u v = sum_list (map2 (*) u v)"

definition sumsq :: "real list \<Rightarrow> real" where
  "sumsq u = sum_list (map (\<lambda>x. x * x) u)"

text \<open>Two arrays of rows have the same shape; numpy multiplies and adds them only then.\<close>

definition same_shape :: "real list list \<Rightarrow> real list list \<Rightarrow> bool" where
  "same_shape d v = list_all2 (\<lambda>dr vr. length dr = length vr) d v"

text \<open>
  The coefficients \<open>a\<close> and \<open>b\<close> of the quadratic for \<open>"velocity"\<close>, from masses \<open>m\<close>,
  coupling rows \<open>d\<close> and velocity rows \<open>v\<close>:
  \<open>a = np.sum(m * np.sum(d ** 2., axis=1))\<close>,
  \<open>b = 2. * np.sum(m * np.sum(d * v, axis=1))\<close>.
\<close>

definition coeff_velocity ::
  "real list \<Rightarrow> real list list \<Rightarrow> real list list \<Rightarrow> py_error + real \<times> real" where
  "coeff_velocity m d v =
     (if length m = length d \<and> same_shape d v
      then Inr (sum_list (map2 (\<lambda>mi dr. mi * sumsq dr) m d),
                2 * sum_list (map2 (*) m (map2 dot d v)))
      else Inl ValueError)"

text \<open>
  For \<open>"momentum"\<close> and \<open>"augment"\<close>:
  \<open>a = np.sum(1. / m * np.sum(d ** 2., axis=1))\<close>,
  \<open>b = 2. * np.sum(np.sum(d * v, axis=1))\<close>. \<open>1. / m\<close> is infinite at a zero mass.
\<close>

definition coeff_momentum ::
  "real list \<Rightarrow> real list list \<Rightarrow> real list list \<Rightarrow> py_error + real \<times> real" where
  "coeff_momentum m d v =
     (if length m = length d \<and> same_shape d v
      then (if 0 \<in> set m then Inl NonFinite
            else Inr (sum_list (map2 (\<lambda>mi dr. 1 / mi * sumsq dr) m d),
                      2 * sum_list (map2 dot d v)))
      else Inl ValueError)"

text \<open>
  The block "Solve quadratic equation for scaling factor of velocities": the triple
  \<open>(a, b, det)\<close>, with \<open>a = b = det = 1\<close> in \<open>"energy"\<close> mode, and \<open>c = 2. * pot_diff\<close>,
  \<open>det = b ** 2. - 4. * a * c\<close> otherwise.
\<close>

definition quadratic ::
  "rescale \<Rightarrow> real list \<Rightarrow> real list list \<Rightarrow> real list list \<Rightarrow> real
     \<Rightarrow> py_error + real \<times> real \<times> real" where
  "quadratic mode m d v pot_diff =
     (case mode of
        Energy \<Rightarrow> Inr (1, 1, 1)
      | Velocity \<Rightarrow>
          (case coeff_velocity m d v of
             Inl err \<Rightarrow> Inl err
           | Inr (a, b) \<Rightarrow> Inr (a, b, b * b - 4 * a * (2 * pot_diff)))
      | _ \<Rightarrow>
          (case coeff_momentum m d v of
             Inl err \<Rightarrow> Inl err
           | Inr (a, b) \<Rightarrow> Inr (a, b, b * b - 4 * a * (2 * pot_diff))))"

text \<open>
  The four tests that set \<open>self.l_reject\<close>, in the order of the source: each later
  assignment overrides the earlier ones.
\<close>

definition frustrated :: "rescale \<Rightarrow> real \<Rightarrow> real \<Rightarrow> real \<Rightarrow> real \<Rightarrow> bool" where
  "frustrated mode ekin pot_diff det ep =
     (let r0 = False;
          r1 = (if mode = Energy \<and> ekin < ep then True else r0);
          r2 = (if ekin < pot_diff then True else r1);
          r3 = (if det < 0 then True else r2)
      in if mode = Augment \<and> ekin > pot_diff then False else r3)"

text \<open>A division and a square root of numpy, finite or not.\<close>

definition np_div :: "real \<Rightarrow> real \<Rightarrow> py_error + real" where
  "np_div x y = (if y = 0 then Inl NonFinite else Inr (x / y))"

definition np_sqrt :: "real \<Rightarrow> py_error + real" where
  "np_sqrt x = (if x < 0 then Inl NonFinite else Inr (sqrt x))"

text \<open>
  The scaling factor of an accepted hop:
  \<open>x = np.sqrt(1. - pot_diff / ekin_qm)\<close> in \<open>"energy"\<close> mode and in \<open>"augment"\<close> mode
  without a real root, and the root \<open>0.5 * (- b - np.sqrt(det)) / a\<close> for \<open>b < 0\<close>,
  \<open>0.5 * (- b + np.sqrt(det)) / a\<close> otherwise.
\<close>

definition accept_factor ::
  "rescale \<Rightarrow> real \<Rightarrow> real \<Rightarrow> real \<Rightarrow> real \<Rightarrow> real \<Rightarrow> py_error + real" where
  "accept_factor mode ekin pot_diff a b det =
     (if mode = Energy \<or> (det < 0 \<and> mode = Augment) then
        (case np_div pot_diff ekin of
           Inl err \<Rightarrow> Inl err
         | Inr q \<Rightarrow> np_sqrt (1 - q))
      else
        (case np_sqrt det of
           Inl err \<Rightarrow> Inl err
         | Inr sq \<Rightarrow>
             if b < 0 then np_div (0.5 * (- b - sq)) a
             else np_div (0.5 * (- b + sq)) a))"

text \<open>\<open>vel[0:n] *= x\<close>: the first \<open>n\<close> rows are scaled, the others stay.\<close>

definition scale_rows :: "nat \<Rightarrow> real \<Rightarrow> real list list \<Rightarrow> real list list" where
  "scale_rows n x v = map (map (\<lambda>c. c * x)) (take n v) @ drop n v"

text \<open>
  \<open>vel[0:n] += x * d\<close>, for coupling rows \<open>d\<close> already cut to the slice the source
  names; numpy adds only operands of one shape.
\<close>

definition add_rows ::
  "nat \<Rightarrow> real \<Rightarrow> real list list \<Rightarrow> real list list \<Rightarrow> py_error + real list list" where
  "add_rows n x d v =
     (if same_shape (take n v) d
      then Inr (map2 (\<lambda>vr dr. map2 (\<lambda>c g. c + x * g) vr dr) (take n v) d @ drop n v)
      else Inl ValueError)"

text \<open>
  \<open>vel[0:n] += x * d / mass[0:n].reshape((-1, 1))\<close>: row \<open>i\<close> of \<open>x * d\<close> is divided by
  the mass of atom \<open>i\<close>.
\<close>

definition add_rows_mass ::
  "nat \<Rightarrow> real \<Rightarrow> real list list \<Rightarrow> real list \<Rightarrow> real list list
     \<Rightarrow> py_error + real list list" where
  "add_rows_mass n x d m v =
     (if same_shape (take n v) d \<and> length (take n m) = length d
      then (if 0 \<in> set (take n m) then Inl NonFinite
            else Inr (map2 (\<lambda>vr (dr, mi). map2 (\<lambda>c g. c + x * g / mi) vr dr)
                        (take n v) (zip d (take n m)) @ drop n v))
      else Inl ValueError)"

text \<open>
  The block "Rescale velocities for QM atoms" for a factor \<open>x\<close>. In \<open>"augment"\<close> mode the
  source adds along the coupling when \<open>det > 0. or ekin_qm < pot_diff\<close> and scales
  otherwise.
\<close>

definition rescale_vel ::
  "rescale \<Rightarrow> nat \<Rightarrow> real \<Rightarrow> real list list \<Rightarrow> real list \<Rightarrow> real \<Rightarrow> real \<Rightarrow> real
     \<Rightarrow> real list list \<Rightarrow> py_error + real list list" where
  "rescale_vel mode n x d m det ekin pot_diff v =
     (case mode of
        Energy \<Rightarrow> Inr (scale_rows n x v)
      | Velocity \<Rightarrow> add_rows n x d v
      | Momentum \<Rightarrow> add_rows_mass n x d m v
      | Augment \<Rightarrow>
          if det > 0 \<or> ekin < pot_diff then add_rows_mass n x d m v
          else Inr (scale_rows n x v))"

text \<open>
  Modelled from the spec: \<open>update_kinetic\<close> belongs to the molecule class, which is not
  among the sources. The kinetic energy of the QM region is half the sum, over the
  first \<open>nat_qm\<close> atoms, of mass times squared velocity.
\<close>

definition kinetic :: "real list \<Rightarrow> real list list \<Rightarrow> real" where
  "kinetic m v = sum_list (map2 (\<lambda>mi vr. 0.5 * mi * sumsq vr) m v)"

definition update_kinetic :: "env \<Rightarrow> sh_state \<Rightarrow> sh_state" where
  "update_kinetic e s = s\<lparr>ekin_qm := kinetic (take (nat_qm e) (mass e)) (take (nat_qm e) (vel s))\<rparr>"

text \<open>
  The body of \<open>if (self.l_hop):\<close> in \<open>evaluate_hop\<close>, which the two classes share but
  for the slices they take: \<open>mq\<close> and \<open>vq\<close> are the masses and velocities that enter the
  sums for \<open>a\<close> and \<open>b\<close>, and \<open>slc\<close> is the slice of the coupling rows that the velocity
  update names. After a rejection the source has already reset \<open>self.rstate\<close>, so the
  update of a reversed hop reads the coupling \<open>nac[rstate_old, rstate_old]\<close>.
\<close>

definition hop_body ::
  "env \<Rightarrow> real list \<Rightarrow> real list list \<Rightarrow> (real list list \<Rightarrow> real list list)
     \<Rightarrow> sh_state \<Rightarrow> py_error + sh_state" where
  "hop_body e mq vq slc s =
     (let pot_diff = energy e (rstate s) - energy e (rstate_old s);
          mode = vel_rescale e;
          n = nat_qm e
      in case quadratic mode mq (nac e (rstate_old s) (rstate s)) vq pot_diff of
           Inl err \<Rightarrow> Inl err
         | Inr (a, b, det) \<Rightarrow>
             if frustrated mode (ekin_qm s) pot_diff det (eps e) then
               (let ev1 = (if ekin_qm s < pot_diff
                           then [RejectKinetic (rstate s) (rstate_old s)] else []);
                    ev2 = (case vel_reject e of Keep \<Rightarrow> [RejectKeep]
                                              | Reverse \<Rightarrow> [RejectReverse])
                in case set_first (bo_list s) (rstate_old s) of
                     Inl err \<Rightarrow> Inl err
                   | Inr bl \<Rightarrow>
                       (let s1 = s\<lparr>l_reject := True, event := event s @ ev1 @ ev2,
                                   l_hop := False, rstate := rstate_old s, bo_list := bl\<rparr>
                        in case vel_reject e of
                             Keep \<Rightarrow> Inr (update_kinetic e s1)
                           | Reverse \<Rightarrow>
                               (case np_div (- b) a of
                                  Inl err \<Rightarrow> Inl err
                                | Inr x \<Rightarrow>
                                    (case rescale_vel mode n x
                                            (slc (nac e (rstate_old s) (rstate_old s)))
                                            (mass e) det (ekin_qm s) pot_diff (vel s) of
                                       Inl err \<Rightarrow> Inl err
                                     | Inr v' \<Rightarrow> Inr (update_kinetic e (s1\<lparr>vel := v'\<rparr>))))))
             else
               (case accept_factor mode (ekin_qm s) pot_diff a b det of
                  Inl err \<Rightarrow> Inl err
                | Inr x \<Rightarrow>
                    (let ev = (if (mode = Energy \<or> (det < 0 \<and> mode = Augment)) \<and> det < 0
                               then [AcceptSimple] else []);
                         s1 = s\<lparr>l_reject := False, event := event s @ ev\<rparr>
                     in case rescale_vel mode n x (slc (nac e (rstate_old s) (rstate s)))
                               (mass e) det (ekin_qm s) pot_diff (vel s) of
                          Inl err \<Rightarrow> Inl err
                        | Inr v' \<Rightarrow> Inr (update_kinetic e (s1\<lparr>vel := v'\<rparr>)))))"

text \<open>
  \<open>evaluate_hop\<close> of \<open>mqc/sh.py\<close>: the sums for \<open>a\<close> and \<open>b\<close> run over the whole arrays
  \<open>mol.mass\<close> and \<open>mol.vel\<close>, the update over \<open>nac[rstate_old, rstate, 0:nat_qm]\<close>. The
  last test, "Record hopping event", stands outside \<open>if (self.l_hop):\<close>.
\<close>

definition evaluate_hop :: "env \<Rightarrow> sh_state \<Rightarrow> py_error + sh_state" where
  "evaluate_hop e s =
     (case (if l_hop s then hop_body e (mass e) (vel s) (take (nat_qm e)) s else Inr s) of
        Inl err \<Rightarrow> Inl err
      | Inr s1 \<Rightarrow>
          Inr (if rstate s1 \<noteq> rstate_old s1
               then s1\<lparr>event := event s1 @ [AcceptHop (rstate_old s1) (rstate s1)]\<rparr>
               else s1))"

text \<open>
  \<open>evaluate_hop\<close> of \<open>mqc_qed/sh.py\<close>: the body runs only when \<open>qed.l_trivial\<close> is false,
  the sums for \<open>a\<close> and \<open>b\<close> run over \<open>pol.mass[0:nat_qm]\<close> and \<open>pol.vel[0:nat_qm]\<close>, the
  update reads the whole of \<open>pnac[rstate_old, rstate]\<close>, and the recorded event names a
  trivial crossing when \<open>qed.l_trivial\<close> is true.
\<close>

definition evaluate_hop_qed :: "env \<Rightarrow> qed_obj \<Rightarrow> sh_state \<Rightarrow> py_error + sh_state" where
  "evaluate_hop_qed e q s =
     (case (if l_hop s then
              (if \<not> l_trivial q
               then hop_body e (take (nat_qm e) (mass e)) (take (nat_qm e) (vel s)) (\<lambda>d. d) s
               else Inr s)
            else Inr s) of
        Inl err \<Rightarrow> Inl err
      | Inr s1 \<Rightarrow>
          Inr (if rstate s1 \<noteq> rstate_old s1
               then (if \<not> l_trivial q
                     then s1\<lparr>event := event s1 @ [AcceptHop (rstate_old s1) (rstate s1)]\<rparr>
                     else s1\<lparr>event := event s1 @ [TrivialHop (rstate_old s1) (rstate s1)]\<rparr>)
               else s1))"

section \<open>The probability calculator: \<open>hop_prob\<close>\<close>

text \<open>
  One entry of the probability vector: the quotient \<open>num / den\<close> followed by the clamp
  \<open>if (self.prob[ist] < 0.): self.prob[ist] = 0.\<close>. The source divides whatever \<open>den\<close>
  is. A quotient of minus infinity is below zero and is clamped like any negative
  number; plus infinity and \<open>nan\<close> stay in the vector.
\<close>

definition clamped_ratio :: "real \<Rightarrow> real \<Rightarrow> py_error + real" where
  "clamped_ratio num den =
     (case xdiv (Fin num) (Fin den) of
        Fin p \<Rightarrow> Inr (if p < 0 then 0 else p)
      | MInf \<Rightarrow> Inr 0
      | _ \<Rightarrow> Inl NonFinite)"

text \<open>
  The loop \<open>for ist in range(nst)\<close> of \<open>hop_prob\<close>, over the indices still to visit, on
  the triple of \<open>self.prob\<close>, \<open>self.acc_prob\<close> and \<open>accum\<close>; \<open>r\<close> is \<open>self.rstate\<close>. The
  source has this loop three times, once in \<open>mqc/sh.py\<close> and twice in \<open>mqc_qed/sh.py\<close>;
  the three differ only in the value \<open>f ist\<close> they give to \<open>self.prob[ist]\<close>.
\<close>

fun prob_loop ::
  "(nat \<Rightarrow> py_error + real) \<Rightarrow> nat \<Rightarrow> nat list \<Rightarrow> real list \<times> real list \<times> real
     \<Rightarrow> py_error + real list \<times> real list \<times> real" where
  "prob_loop f r [] st = Inr st"
| "prob_loop f r (ist # ists) (p, acc, accum) =
     (if ist \<noteq> r then
        (case f ist of
           Inl err \<Rightarrow> Inl err
         | Inr pr \<Rightarrow> prob_loop f r ists (p[ist := pr], acc[ist + 1 := accum + pr], accum + pr))
      else prob_loop f r ists (p, acc[ist + 1 := accum], accum))"

text \<open>
  The entry of \<open>mqc/sh.py\<close>:
  \<open>- 2. * rho.real[ist, rstate] * nacme[ist, rstate] * dt / rho.real[rstate, rstate]\<close>,
  clamped at zero.
\<close>

definition prob_entry :: "env \<Rightarrow> (nat \<Rightarrow> nat \<Rightarrow> complex) \<Rightarrow> nat \<Rightarrow> nat \<Rightarrow> py_error + real" where
  "prob_entry e rh r ist =
     clamped_ratio (- 2 * Re (rh ist r) * nacme e ist r * dt e) (Re (rh r r))"

text \<open>
  The end of \<open>hop_prob\<close> in both classes: \<open>psum = self.acc_prob[nst]\<close>, and both vectors
  are divided by \<open>psum\<close> when it exceeds one.
\<close>

definition normalise :: "nat \<Rightarrow> real list \<times> real list \<times> real \<Rightarrow> sh_state \<Rightarrow> sh_state" where
  "normalise n st s =
     (case st of (p, acc, accum) \<Rightarrow>
        (let psum = acc ! n
         in if psum > 1
            then s\<lparr>prob := map (\<lambda>x. x / psum) p, acc_prob := map (\<lambda>x. x / psum) acc\<rparr>
            else s\<lparr>prob := p, acc_prob := acc\<rparr>))"

text \<open>The head of \<open>hop_prob\<close> in both classes, "Reset surface hopping variables".\<close>

definition reset_hop :: "env \<Rightarrow> sh_state \<Rightarrow> sh_state" where
  "reset_hop e s =
     s\<lparr>rstate_old := rstate s, prob := replicate (nst e) 0,
       acc_prob := replicate (nst e + 1) 0, l_hop := False\<rparr>"

definition hop_prob :: "env \<Rightarrow> sh_state \<Rightarrow> py_error + sh_state" where
  "hop_prob e s =
     (let s0 = reset_hop e s
      in case prob_loop (prob_entry e (rho s0) (rstate s0)) (rstate s0) [0..<nst e]
                (prob s0, acc_prob s0, 0) of
           Inl err \<Rightarrow> Inl err
         | Inr st \<Rightarrow> Inr (normalise (nst e) st s0))"

text \<open>
  \<open>tmp_ham = np.matmul(np.transpose(qed.unitary), np.matmul(qed.ham_d, qed.unitary))\<close>,
  for square matrices of size \<open>n\<close>.
\<close>

definition matmul ::
  "nat \<Rightarrow> (nat \<Rightarrow> nat \<Rightarrow> real) \<Rightarrow> (nat \<Rightarrow> nat \<Rightarrow> real) \<Rightarrow> nat \<Rightarrow> nat \<Rightarrow> real" where
  "matmul n A B i j = sum_list (map (\<lambda>k. A i k * B k j) [0..<n])"

definition tmp_ham :: "nat \<Rightarrow> qed_obj \<Rightarrow> nat \<Rightarrow> nat \<Rightarrow> real" where
  "tmp_ham n q = matmul n (\<lambda>i k. unitary q k i) (matmul n (ham_d q) (unitary q))"

text \<open>
  The entry of \<open>mqc_qed/sh.py\<close> when \<open>qed.l_trivial\<close> is false:
  \<open>- 2. * (rho_a.imag[rstate, ist] * tmp_ham[rstate, ist]
      - rho_a.real[rstate, ist] * pnacme[rstate, ist]) * dt / rho_a.real[rstate, rstate]\<close>,
  clamped at zero.
\<close>

definition prob_entry_qed ::
  "env \<Rightarrow> (nat \<Rightarrow> nat \<Rightarrow> real) \<Rightarrow> (nat \<Rightarrow> nat \<Rightarrow> complex) \<Rightarrow> nat \<Rightarrow> nat
     \<Rightarrow> py_error + real" where
  "prob_entry_qed e h rh r ist =
     clamped_ratio (- 2 * (Im (rh r ist) * h r ist - Re (rh r ist) * nacme e r ist) * dt e)
       (Re (rh r r))"

text \<open>
  The entry when \<open>qed.l_trivial\<close> is true: one for \<open>qed.trivial_state\<close>, zero for every
  other state.
\<close>

definition prob_entry_trivial :: "nat \<Rightarrow> nat \<Rightarrow> py_error + real" where
  "prob_entry_trivial t ist = Inr (if ist = t then 1 else 0)"

definition hop_prob_qed :: "env \<Rightarrow> qed_obj \<Rightarrow> sh_state \<Rightarrow> py_error + sh_state" where
  "hop_prob_qed e q s =
     (let s0 = reset_hop e s
      in case (if \<not> l_trivial q
               then prob_loop (prob_entry_qed e (tmp_ham (nst e) q) (rho s0) (rstate s0))
                      (rstate s0) [0..<nst e] (prob s0, acc_prob s0, 0)
               else prob_loop (prob_entry_trivial (trivial_state q))
                      (rstate s0) [0..<nst e] (prob s0, acc_prob s0, 0)) of
           Inl err \<Rightarrow> Inl err
         | Inr st \<Rightarrow> Inr (normalise (nst e) st s0))"

text \<open>
  The closed form of the entries that the loops of \<open>hop_prob\<close> compute when the
  division is finite: zero for the running state, the clamped quotient for every
  other state, in \<open>mqc/sh.py\<close> and in \<open>mqc_qed/sh.py\<close>; and the vector after the division
  by \<open>psum\<close>, the sum of the \<open>n\<close> entries.
\<close>

definition hop_raw :: "env \<Rightarrow> sh_state \<Rightarrow> nat \<Rightarrow> real" where
  "hop_raw e s i =
     (if i = rstate s then 0
      else max 0 (- 2 * Re (rho s i (rstate s)) * nacme e i (rstate s) * dt e
                  / Re (rho s (rstate s) (rstate s))))"

definition hop_raw_qed :: "env \<Rightarrow> qed_obj \<Rightarrow> sh_state \<Rightarrow> nat \<Rightarrow> real" where
  "hop_raw_qed e q s i =
     (if i = rstate s then 0
      else max 0 (- 2 * (Im (rho s (rstate s) i) * tmp_ham (nst e) q (rstate s) i
                         - Re (rho s (rstate s) i) * nacme e (rstate s) i) * dt e
                  / Re (rho s (rstate s) (rstate s))))"

definition renormalised :: "(nat \<Rightarrow> real) \<Rightarrow> nat \<Rightarrow> nat \<Rightarrow> real" where
  "renormalised raw n i =
     (let psum = (\<Sum>k<n. raw k) in if psum > 1 then raw i / psum else raw i)"

section \<open>The energy-based decoherence correction: \<open>correct_dec_edc\<close>\<close>

text \<open>
  One entry of \<open>exp_tau\<close>: \<open>1.\<close> for the running state, and otherwise
  \<open>np.exp(- dt / ((1. + edc_parameter / ekin_qm) / np.abs(E[ist] - E[rstate])))\<close>.
  The kinetic energy and the absolute value are numpy floats, so a division by zero
  gives an infinite value or \<open>nan\<close> and no exception.
\<close>

definition exp_tau :: "env \<Rightarrow> sh_state \<Rightarrow> nat \<Rightarrow> xreal" where
  "exp_tau e s ist =
     (if ist = rstate s then Fin 1
      else xexp (xdiv (Fin (- dt e))
                  (xdiv (xadd (Fin 1) (xdiv (Fin (edc_parameter e)) (Fin (ekin_qm s))))
                     (Fin \<bar>energy e ist - energy e (rstate s)\<bar>))))"

text \<open>
  The loop "Update coefficients" on the coefficients and \<open>rho_update\<close>; a factor that
  is not finite makes the coefficient so.
\<close>

fun edc_coef_loop ::
  "env \<Rightarrow> sh_state \<Rightarrow> nat list \<Rightarrow> (nat \<Rightarrow> complex) \<times> complex
     \<Rightarrow> py_error + (nat \<Rightarrow> complex) \<times> complex" where
  "edc_coef_loop e s [] st = Inr st"
| "edc_coef_loop e s (ist # ists) (c, ru) =
     (if ist \<noteq> rstate s then
        (case finite_value (exp_tau e s ist) of
           Inl err \<Rightarrow> Inl err
         | Inr f \<Rightarrow>
             (let c' = c(ist := c ist * of_real f)
              in edc_coef_loop e s ists (c', ru - cnj (c' ist) * c' ist)))
      else edc_coef_loop e s ists (c, ru))"

text \<open>
  The loops "Get density matrix elements from coefficients": the inner one over
  \<open>jst\<close> for a fixed \<open>ist\<close>, the outer one over \<open>ist\<close>.
\<close>

fun rho_row_loop ::
  "(nat \<Rightarrow> complex) \<Rightarrow> nat \<Rightarrow> nat list \<Rightarrow> (nat \<Rightarrow> nat \<Rightarrow> complex) \<Rightarrow> nat \<Rightarrow> nat \<Rightarrow> complex" where
  "rho_row_loop c ist [] rh = rh"
| "rho_row_loop c ist (jst # jsts) rh =
     (let rh1 = rh(ist := (rh ist)(jst := cnj (c ist) * c jst));
          rh2 = rh1(jst := (rh1 jst)(ist := cnj (rh1 ist jst)))
      in rho_row_loop c ist jsts rh2)"

fun rho_loop ::
  "(nat \<Rightarrow> complex) \<Rightarrow> nat \<Rightarrow> nat list \<Rightarrow> (nat \<Rightarrow> nat \<Rightarrow> complex) \<Rightarrow> nat \<Rightarrow> nat \<Rightarrow> complex" where
  "rho_loop c n [] rh = rh"
| "rho_loop c n (ist # ists) rh = rho_loop c n ists (rho_row_loop c ist [ist..<n] rh)"

text \<open>
  \<open>correct_dec_edc\<close>. Only the branch for \<open>elec_object == "coefficient"\<close> exists; the
  one for \<open>"density"\<close> is commented out in the source, and the routine then changes
  nothing. \<open>np.sqrt\<close> takes the principal root of the complex quotient
  \<open>rho_update / rho_a[rstate, rstate]\<close>, which is \<open>nan\<close> for a zero population.
\<close>

definition correct_dec_edc :: "env \<Rightarrow> sh_state \<Rightarrow> py_error + sh_state" where
  "correct_dec_edc e s =
     (case elec_object e of
        Density \<Rightarrow> Inr s
      | Coefficient \<Rightarrow>
          (case edc_coef_loop e s [0..<nst e] (coef s, 1) of
             Inl err \<Rightarrow> Inl err
           | Inr (c1, ru) \<Rightarrow>
               if rho s (rstate s) (rstate s) = 0 then Inl NonFinite
               else
                 (let c2 = c1(rstate s := c1 (rstate s)
                                * csqrt (ru / rho s (rstate s) (rstate s)))
                  in Inr (s\<lparr>coef := c2, rho := rho_loop c2 (nst e) [0..<nst e] (rho s)\<rparr>))))"

text \<open>
  The decay factor \<open>exp(- dt / tau)\<close> of a state \<open>i\<close> other than the running one, with
  \<open>tau = (1 + edc_parameter / ekin_qm) / |E[i] - E[rstate]|\<close>, as a real number. For a
  state of the same energy as the running one \<open>tau\<close> is infinite and the factor is one.
\<close>

definition edc_factor :: "env \<Rightarrow> sh_state \<Rightarrow> nat \<Rightarrow> real" where
  "edc_factor e s i =
     (if energy e i = energy e (rstate s) then 1
      else exp (- dt e / ((1 + edc_parameter e / ekin_qm s)
                          / \<bar>energy e i - energy e (rstate s)\<bar>)))"

text \<open>The total electronic population, the sum of the diagonal of the density matrix.\<close>

definition population :: "env \<Rightarrow> sh_state \<Rightarrow> complex" where
  "population e s = (\<Sum>i<nst e. rho s i i)"

section \<open>Concrete inputs\<close>

text \<open>
  A system of two states and one atom of mass one that moves along one axis. The
  upper state lies half a hartree above the lower one and the coupling vector is the
  unit vector. The mode of rescaling and the policy on rejection are arguments.
\<close>

definition two_state_env :: "rescale \<Rightarrow> reject \<Rightarrow> env" where
  "two_state_env mode rj =
     \<lparr>nst = 2, nat_qm = 1, mass = [1], energy = (\<lambda>i. if i = 1 then 1 / 2 else 0),
      nac = (\<lambda>i j. [[1]]), nacme = (\<lambda>i j. 1), dt = 1, eps = 1 / 10 ^ 12,
      vel_rescale = mode, vel_reject = rj, elec_object = Coefficient,
      edc_parameter = 1 / 10\<rparr>"

text \<open>
  The state after \<open>hop_check\<close> has selected the upper state from the lower one, for an
  atom of velocity \<open>v\<close> and a stored kinetic energy \<open>k\<close>.
\<close>

definition selected_hop :: "real \<Rightarrow> real \<Rightarrow> sh_state" where
  "selected_hop v k =
     \<lparr>rstate = 1, rstate_old = 0, rand = 1 / 2, prob = [0, 1], acc_prob = [0, 0, 1],
      l_hop = True, l_reject = False, vel = [[v]], ekin_qm = k, rho = (\<lambda>i j. 0),
      coef = (\<lambda>i. 0), event = [], bo_list = [1]\<rparr>"

text \<open>The state of a step on the lower state in which no hop was selected.\<close>

definition silent_step :: sh_state where
  "silent_step =
     \<lparr>rstate = 0, rstate_old = 0, rand = 1 / 2, prob = [0, 0], acc_prob = [0, 0, 0],
      l_hop = False, l_reject = False, vel = [[1]], ekin_qm = 1 / 2, rho = (\<lambda>i j. 0),
      coef = (\<lambda>i. 0), event = [], bo_list = [0]\<rparr>"

text \<open>A \<open>qed\<close> object with the trivial-crossing flag \<open>tr\<close> and target \<open>t\<close>.\<close>

definition cavity :: "bool \<Rightarrow> nat \<Rightarrow> qed_obj" where
  "cavity tr t =
     \<lparr>l_trivial = tr, trivial_state = t, unitary = (\<lambda>i j. if i = j then 1 else 0),
      ham_d = (\<lambda>i j. 0)\<rparr>"

text \<open>
  The state that a frustrated hop leaves behind when the policy is \<open>"keep"\<close>: the
  selected hop at velocity \<open>v\<close> and kinetic energy \<open>k\<close>, back on the lower state, with
  the lines \<open>ev\<close> in the event log.
\<close>

definition kept_hop :: "real \<Rightarrow> real \<Rightarrow> hop_event list \<Rightarrow> sh_state" where
  "kept_hop v k ev =
     (selected_hop v k)\<lparr>rstate := 0, l_hop := False, l_reject := True, event := ev,
                        bo_list := [0]\<rparr>"

text \<open>
  The same system with the atom moving in a plane: the coupling vector lies along the
  first axis, the velocity of the selected hop along the second, so the quadratic has
  no real root although the kinetic energy, \<open>25 / 32\<close>, exceeds the gap.
\<close>

definition planar_env :: "rescale \<Rightarrow> reject \<Rightarrow> env" where
  "planar_env mode rj = (two_state_env mode rj)\<lparr>nac := (\<lambda>i j. [[1, 0]])\<rparr>"

definition planar_hop :: sh_state where
  "planar_hop = (selected_hop 0 (25 / 32))\<lparr>vel := [[0, 5 / 4]]\<rparr>"

text \<open>
  The state that an accepted hop leaves behind: the selected hop with new velocities
  \<open>w\<close>, kinetic energy \<open>k\<close> and event lines \<open>ev\<close>.
\<close>

definition accepted_hop :: "sh_state \<Rightarrow> real list list \<Rightarrow> real \<Rightarrow> hop_event list \<Rightarrow> sh_state" where
  "accepted_hop s w k ev = s\<lparr>vel := w, ekin_qm := k, event := ev\<rparr>"

text \<open>
  The state before \<open>hop_check\<close> on the lower state, when \<open>hop_prob\<close> has given the upper
  state the probability one half.
\<close>

definition before_check :: sh_state where
  "before_check = silent_step\<lparr>prob := [0, 1 / 2], acc_prob := [0, 0, 1 / 2]\<rparr>"

text \<open>
  A state on the lower of the two states whose population there is \<open>10^-20\<close>, far below
  \<open>eps\<close>, with the coherence \<open>c\<close> between the two states.
\<close>

definition faint_state :: "real \<Rightarrow> sh_state" where
  "faint_state c =
     silent_step\<lparr>rho := (\<lambda>i j. if i = j then (if i = 0 then 1 / 10 ^ 20 else 1 - 1 / 10 ^ 20)
                               else complex_of_real c)\<rparr>"

text \<open>
  A state of the two-state system on the lower state, with the coefficients \<open>c0\<close> and
  \<open>c1\<close> and the density matrix built from them.
\<close>

definition coef_state :: "complex \<Rightarrow> complex \<Rightarrow> sh_state" where
  "coef_state c0 c1 =
     silent_step\<lparr>coef := (\<lambda>i. if i = 0 then c0 else c1),
                 rho := (\<lambda>i j. cnj (if i = 0 then c0 else c1) * (if j = 0 then c0 else c1))\<rparr>"

text \<open>The two-state system with both states at the same energy.\<close>

definition degenerate_env :: env where
  "degenerate_env = (two_state_env Momentum Reverse)\<lparr>energy := (\<lambda>i. 0)\<rparr>"

text \<open>The two-state system with the energy parameter of the correction set to \<open>- 1\<close>.\<close>

definition negative_env :: env where
  "negative_env = (two_state_env Momentum Reverse)\<lparr>edc_parameter := - 1\<rparr>"

section \<open>Properties of \<open>evaluate_hop\<close>\<close>

lemmas hop_defs =
  evaluate_hop_def evaluate_hop_qed_def hop_body_def quadratic_def coeff_velocity_def
  coeff_momentum_def same_shape_def sumsq_def dot_def frustrated_def accept_factor_def
  np_sqrt_def np_div_def rescale_vel_def scale_rows_def add_rows_def add_rows_mass_def
  update_kinetic_def kinetic_def set_first_def

lemmas input_defs =
  two_state_env_def selected_hop_def silent_step_def cavity_def kept_hop_def planar_env_def
  planar_hop_def accepted_hop_def before_check_def faint_state_def coef_state_def
  degenerate_env_def negative_env_def

lemma frustrated_negative_det:
  "\<not> frustrated mode ekin pd det ep \<Longrightarrow> det < 0 \<Longrightarrow> mode = Augment \<and> pd < ekin"
  by (auto simp: frustrated_def Let_def split: if_splits)

lemma hop_body_result:
  assumes "hop_body e mq vq slc s = Inr s'"
  defines "pd \<equiv> energy e (rstate s) - energy e (rstate_old s)"
  shows "\<exists>a b det.
    quadratic (vel_rescale e) mq (nac e (rstate_old s) (rstate s)) vq pd = Inr (a, b, det)
    \<and> l_reject s' = frustrated (vel_rescale e) (ekin_qm s) pd det (eps e)
    \<and> rstate_old s' = rstate_old s
    \<and> ekin_qm s' = kinetic (take (nat_qm e) (mass e)) (take (nat_qm e) (vel s'))
    \<and> (l_reject s' \<longrightarrow>
          \<not> l_hop s' \<and> rstate s' = rstate_old s
          \<and> bo_list s' = rstate_old s # tl (bo_list s)
          \<and> event s' = event s
              @ (if ekin_qm s < pd then [RejectKinetic (rstate s) (rstate_old s)] else [])
              @ [case vel_reject e of Keep \<Rightarrow> RejectKeep | Reverse \<Rightarrow> RejectReverse]
          \<and> (vel_reject e = Keep \<longrightarrow> vel s' = vel s))
    \<and> (\<not> l_reject s' \<longrightarrow>
          l_hop s' = l_hop s \<and> rstate s' = rstate s \<and> bo_list s' = bo_list s
          \<and> event s' = event s @ (if det < 0 then [AcceptSimple] else [])
          \<and> (\<exists>x. accept_factor (vel_rescale e) (ekin_qm s) pd a b det = Inr x
                \<and> rescale_vel (vel_rescale e) (nat_qm e) x
                     (slc (nac e (rstate_old s) (rstate s))) (mass e) det (ekin_qm s) pd (vel s)
                   = Inr (vel s')))"
proof -
  from assms(1) obtain a b det where
    q: "quadratic (vel_rescale e) mq (nac e (rstate_old s) (rstate s)) vq pd = Inr (a, b, det)"
    unfolding hop_body_def pd_def Let_def by (simp split: sum.splits prod.splits)
  show ?thesis
  proof (cases "frustrated (vel_rescale e) (ekin_qm s) pd det (eps e)")
    case True
    from assms(1) q True obtain bl where bl: "set_first (bo_list s) (rstate_old s) = Inr bl"
      unfolding hop_body_def pd_def Let_def by (simp split: sum.splits)
    then have bl': "bl = rstate_old s # tl (bo_list s)"
      by (auto simp: set_first_def split: list.splits)
    show ?thesis
    proof (cases "vel_reject e")
      case Keep
      from assms(1) q True bl Keep have
        "s' = update_kinetic e (s\<lparr>l_reject := True,
                event := event s @ (if ekin_qm s < pd
                           then [RejectKinetic (rstate s) (rstate_old s)] else []) @ [RejectKeep],
                l_hop := False, rstate := rstate_old s, bo_list := bl\<rparr>)"
        unfolding hop_body_def pd_def Let_def by simp
      with q True Keep bl' show ?thesis by (simp add: update_kinetic_def)
    next
      case Reverse
      from assms(1) q True bl Reverse obtain x v' where
        "s' = update_kinetic e (s\<lparr>l_reject := True,
                event := event s @ (if ekin_qm s < pd
                           then [RejectKinetic (rstate s) (rstate_old s)] else []) @ [RejectReverse],
                l_hop := False, rstate := rstate_old s, bo_list := bl, vel := v'\<rparr>)"
        unfolding hop_body_def pd_def Let_def by (auto split: sum.splits)
      with q True Reverse bl' show ?thesis by (simp add: update_kinetic_def)
    qed
  next
    case False
    have ev: "det < 0 \<Longrightarrow> vel_rescale e = Augment"
      using frustrated_negative_det [OF False] by auto
    from assms(1) q False obtain x v' where
      x: "accept_factor (vel_rescale e) (ekin_qm s) pd a b det = Inr x"
      and v': "rescale_vel (vel_rescale e) (nat_qm e) x
                 (slc (nac e (rstate_old s) (rstate s))) (mass e) det (ekin_qm s) pd (vel s)
               = Inr v'"
      and s': "s' = update_kinetic e (s\<lparr>l_reject := False,
                 event := event s @
                   (if (vel_rescale e = Energy \<or> (det < 0 \<and> vel_rescale e = Augment)) \<and> det < 0
                    then [AcceptSimple] else []), vel := v'\<rparr>)"
      unfolding hop_body_def pd_def Let_def by (auto split: sum.splits)
    from s' ev have "event s' = event s @ (if det < 0 then [AcceptSimple] else [])"
      by (auto simp: update_kinetic_def)
    with q False x v' s' show ?thesis by (simp add: update_kinetic_def)
  qed
qed

lemma hop_body_rejected:
  assumes "hop_body e mq vq slc s = Inr s'" and "l_reject s'"
  shows "rstate s' = rstate_old s \<and> rstate_old s' = rstate_old s \<and> \<not> l_hop s'
         \<and> bo_list s' = rstate_old s # tl (bo_list s)
         \<and> (vel_reject e = Keep \<longrightarrow> vel s' = vel s)"
  using hop_body_result [OF assms(1)] assms(2) by auto

lemma evaluate_hop_body:
  assumes "l_hop s" and "evaluate_hop e s = Inr s'"
  obtains s1 where "hop_body e (mass e) (vel s) (take (nat_qm e)) s = Inr s1"
    and "s' = (if rstate s1 \<noteq> rstate_old s1
               then s1\<lparr>event := event s1 @ [AcceptHop (rstate_old s1) (rstate s1)]\<rparr>
               else s1)"
  using assms by (auto simp: evaluate_hop_def split: sum.splits)

lemma evaluate_hop_qed_body:
  assumes "l_hop s" and "\<not> l_trivial q" and "evaluate_hop_qed e q s = Inr s'"
  obtains s1 where
    "hop_body e (take (nat_qm e) (mass e)) (take (nat_qm e) (vel s)) (\<lambda>d. d) s = Inr s1"
    and "s' = (if rstate s1 \<noteq> rstate_old s1
               then s1\<lparr>event := event s1 @ [AcceptHop (rstate_old s1) (rstate s1)]\<rparr>
               else s1)"
  using assms by (auto simp: evaluate_hop_qed_def split: sum.splits)

text \<open>
  C10. When no target was selected (the hop flag is false and the running state is the
  one before the step), \<open>evaluate_hop\<close> of either class returns the state as it was:
  velocities, kinetic energy, density matrix, running state, the caller's list and
  the event log are all unchanged.
\<close>

theorem evaluate_hop_noop:
  "\<not> l_hop s \<Longrightarrow> rstate s = rstate_old s \<Longrightarrow>
     evaluate_hop e s = Inr s \<and> evaluate_hop_qed e q s = Inr s"
  by (simp add: evaluate_hop_def evaluate_hop_qed_def)

theorem evaluate_hop_noop_witness:
  "\<not> l_hop silent_step \<and> rstate silent_step = rstate_old silent_step
   \<and> evaluate_hop (two_state_env Momentum Reverse) silent_step = Inr silent_step
   \<and> evaluate_hop_qed (two_state_env Momentum Reverse) (cavity False 0) silent_step
       = Inr silent_step"
proof -
  have h1: "\<not> l_hop silent_step" and h2: "rstate silent_step = rstate_old silent_step"
    by (simp_all add: silent_step_def)
  from evaluate_hop_noop [OF h1 h2] h1 h2 show ?thesis by simp
qed

text \<open>
  C6. A frustrated hop leaves the running state at its value before the hop, writes
  that value into the first entry of the caller's list (\<open>bo_list[0]\<close>, \<open>pol_list[0]\<close>)
  and clears the hop flag, in \<open>evaluate_hop\<close> of both classes.
\<close>

theorem rejected_hop_restores:
  "(l_hop s \<and> evaluate_hop e s = Inr s' \<and> l_reject s' \<longrightarrow>
      rstate s' = rstate_old s \<and> bo_list s' = rstate_old s # tl (bo_list s) \<and> \<not> l_hop s')
   \<and> (l_hop s \<and> \<not> l_trivial q \<and> evaluate_hop_qed e q s = Inr t' \<and> l_reject t' \<longrightarrow>
      rstate t' = rstate_old s \<and> bo_list t' = rstate_old s # tl (bo_list s) \<and> \<not> l_hop t')"
proof (intro conjI impI)
  assume h: "l_hop s \<and> evaluate_hop e s = Inr s' \<and> l_reject s'"
  then obtain s1 where b: "hop_body e (mass e) (vel s) (take (nat_qm e)) s = Inr s1"
    and s': "s' = (if rstate s1 \<noteq> rstate_old s1
               then s1\<lparr>event := event s1 @ [AcceptHop (rstate_old s1) (rstate s1)]\<rparr> else s1)"
    by (auto elim: evaluate_hop_body)
  from h s' have "l_reject s1" by (simp split: if_splits)
  from hop_body_rejected [OF b this] s'
  show "rstate s' = rstate_old s" "bo_list s' = rstate_old s # tl (bo_list s)" "\<not> l_hop s'"
    by simp_all
next
  assume h: "l_hop s \<and> \<not> l_trivial q \<and> evaluate_hop_qed e q s = Inr t' \<and> l_reject t'"
  then obtain s1 where
    b: "hop_body e (take (nat_qm e) (mass e)) (take (nat_qm e) (vel s)) (\<lambda>d. d) s = Inr s1"
    and s': "t' = (if rstate s1 \<noteq> rstate_old s1
               then s1\<lparr>event := event s1 @ [AcceptHop (rstate_old s1) (rstate s1)]\<rparr> else s1)"
    by (auto elim: evaluate_hop_qed_body)
  from h s' have "l_reject s1" by (simp split: if_splits)
  from hop_body_rejected [OF b this] s'
  show "rstate t' = rstate_old s" "bo_list t' = rstate_old s # tl (bo_list s)" "\<not> l_hop t'"
    by simp_all
qed

theorem rejected_hop_restores_witness:
  "l_hop (selected_hop (1 / 2) (1 / 8))
   \<and> \<not> l_trivial (cavity False 0)
   \<and> evaluate_hop (two_state_env Velocity Keep) (selected_hop (1 / 2) (1 / 8))
       = Inr (kept_hop (1 / 2) (1 / 8) [RejectKinetic 1 0, RejectKeep])
   \<and> evaluate_hop_qed (two_state_env Velocity Keep) (cavity False 0)
         (selected_hop (1 / 2) (1 / 8))
       = Inr (kept_hop (1 / 2) (1 / 8) [RejectKinetic 1 0, RejectKeep])
   \<and> l_reject (kept_hop (1 / 2) (1 / 8) [RejectKinetic 1 0, RejectKeep])
   \<and> rstate (kept_hop (1 / 2) (1 / 8) [RejectKinetic 1 0, RejectKeep])
       = rstate_old (selected_hop (1 / 2) (1 / 8))
   \<and> bo_list (kept_hop (1 / 2) (1 / 8) [RejectKinetic 1 0, RejectKeep]) = [0]
   \<and> \<not> l_hop (kept_hop (1 / 2) (1 / 8) [RejectKinetic 1 0, RejectKeep])"
proof -
  let ?e = "two_state_env Velocity Keep"
  let ?s = "selected_hop (1 / 2) (1 / 8)"
  let ?s' = "kept_hop (1 / 2) (1 / 8) [RejectKinetic 1 0, RejectKeep]"
  have h1: "l_hop ?s" and h2: "\<not> l_trivial (cavity False 0)" and h3: "l_reject ?s'"
    by (simp_all add: input_defs kept_hop_def)
  have r1: "evaluate_hop ?e ?s = Inr ?s'"
    by (simp add: hop_defs input_defs kept_hop_def Let_def)
  have r2: "evaluate_hop_qed ?e (cavity False 0) ?s = Inr ?s'"
    by (simp add: hop_defs input_defs kept_hop_def Let_def)
  from rejected_hop_restores [of ?s ?e ?s' "cavity False 0" ?s'] h1 h2 h3 r1 r2
  show ?thesis by (simp add: input_defs kept_hop_def)
qed

lemma sumsq_nonneg: "0 \<le> sumsq u"
  unfolding sumsq_def by (rule sum_list_nonneg) auto

lemma coeff_momentum_a_nonneg:
  assumes "coeff_momentum m d v = Inr (a, b)" and "\<forall>mi \<in> set m. 0 < mi"
  shows "0 \<le> a"
proof -
  from assms(1) have a: "a = sum_list (map2 (\<lambda>mi dr. 1 / mi * sumsq dr) m d)"
    by (simp add: coeff_momentum_def split: if_splits)
  show ?thesis unfolding a
  proof (rule sum_list_nonneg)
    fix x assume "x \<in> set (map2 (\<lambda>mi dr. 1 / mi * sumsq dr) m d)"
    then obtain mi dr where "(mi, dr) \<in> set (zip m d)" and x: "x = 1 / mi * sumsq dr"
      by auto
    then have "0 < mi" using assms(2) by (auto dest: set_zip_leftD)
    then show "0 \<le> x" unfolding x by (simp add: sumsq_nonneg)
  qed
qed

text \<open>
  C7. A hop that \<open>evaluate_hop\<close> of \<open>mqc/sh.py\<close> rejects under the policy \<open>"keep"\<close> leaves
  the velocity array as it was. In particular, in \<open>"energy"\<close> mode with a kinetic energy
  below \<open>eps\<close> the routine returns, the hop is rejected, and the velocities are those of
  the input.
\<close>

theorem keep_leaves_velocity:
  "(l_hop s \<and> vel_reject e = Keep \<and> evaluate_hop e s = Inr s' \<and> l_reject s'
      \<longrightarrow> vel s' = vel s)
   \<and> (l_hop s \<and> vel_reject e = Keep \<and> vel_rescale e = Energy \<and> ekin_qm s < eps e
        \<and> bo_list s \<noteq> []
      \<longrightarrow> (\<exists>t. evaluate_hop e s = Inr t \<and> l_reject t \<and> \<not> l_hop t \<and> vel t = vel s))"
proof (intro conjI impI)
  assume h: "l_hop s \<and> vel_reject e = Keep \<and> evaluate_hop e s = Inr s' \<and> l_reject s'"
  then obtain s1 where b: "hop_body e (mass e) (vel s) (take (nat_qm e)) s = Inr s1"
    and s': "s' = (if rstate s1 \<noteq> rstate_old s1
               then s1\<lparr>event := event s1 @ [AcceptHop (rstate_old s1) (rstate s1)]\<rparr> else s1)"
    by (auto elim: evaluate_hop_body)
  from h s' have "l_reject s1" by (simp split: if_splits)
  from hop_body_rejected [OF b this] h s' show "vel s' = vel s"
    by (simp split: if_splits)
next
  assume h: "l_hop s \<and> vel_reject e = Keep \<and> vel_rescale e = Energy \<and> ekin_qm s < eps e
        \<and> bo_list s \<noteq> []"
  then obtain x xs where bl: "bo_list s = x # xs" by (cases "bo_list s") auto
  from h bl show "\<exists>t. evaluate_hop e s = Inr t \<and> l_reject t \<and> \<not> l_hop t \<and> vel t = vel s"
    by (simp add: evaluate_hop_def hop_body_def quadratic_def frustrated_def set_first_def
        update_kinetic_def Let_def)
qed

theorem keep_leaves_velocity_witness:
  "l_hop (selected_hop 0 0) \<and> vel_reject (two_state_env Energy Keep) = Keep
   \<and> vel_rescale (two_state_env Energy Keep) = Energy
   \<and> ekin_qm (selected_hop 0 0) < eps (two_state_env Energy Keep)
   \<and> bo_list (selected_hop 0 0) \<noteq> []
   \<and> evaluate_hop (two_state_env Energy Keep) (selected_hop 0 0)
       = Inr (kept_hop 0 0 [RejectKinetic 1 0, RejectKeep])
   \<and> l_reject (kept_hop 0 0 [RejectKinetic 1 0, RejectKeep])
   \<and> vel (kept_hop 0 0 [RejectKinetic 1 0, RejectKeep]) = vel (selected_hop 0 0)"
proof -
  let ?e = "two_state_env Energy Keep"
  let ?s = "selected_hop 0 0"
  let ?s' = "kept_hop 0 0 [RejectKinetic 1 0, RejectKeep]"
  have r: "evaluate_hop ?e ?s = Inr ?s'"
    by (simp add: hop_defs input_defs kept_hop_def Let_def)
  have h: "l_hop ?s" "vel_reject ?e = Keep" "vel_rescale ?e = Energy" "ekin_qm ?s < eps ?e"
    "bo_list ?s \<noteq> []" "l_reject ?s'"
    by (simp_all add: input_defs kept_hop_def)
  from keep_leaves_velocity [of ?s ?e ?s'] r h show ?thesis by simp
qed

lemma sqrt_9_25: "sqrt (9 / 25) = 3 / 5"
  by (rule real_sqrt_unique) (simp_all add: power2_eq_square)

lemma planar_eval:
  "evaluate_hop (planar_env Augment Reverse) planar_hop
     = Inr (accepted_hop planar_hop [[0, 3 / 4]] (9 / 32) [AcceptSimple, AcceptHop 0 1])"
  by (simp add: hop_defs input_defs Let_def sqrt_9_25)

text \<open>
  C9, as amended. \<open>evaluate_hop\<close> of \<open>mqc/sh.py\<close> appends no line in a silent step. For a
  frustrated hop it appends the line of the rejection policy, preceded by the line
  "smaller kinetic energy than potential energy difference" when the kinetic energy is
  below the gap: one line or two. For an accepted hop it appends the line
  "Accept hopping: hop i -> j", preceded by the line "velocity is simply rescaled"
  exactly when the mode is \<open>"augment"\<close> and the discriminant \<open>det\<close> of the quadratic is
  negative: again one line or two.
\<close>

theorem hop_event_lines:
  assumes "evaluate_hop e s = Inr s'"
  shows "(\<not> l_hop s \<and> rstate s = rstate_old s \<longrightarrow> event s' = event s)
    \<and> (l_hop s \<and> l_reject s' \<longrightarrow>
         event s' = event s
           @ (if ekin_qm s < energy e (rstate s) - energy e (rstate_old s)
              then [RejectKinetic (rstate s) (rstate_old s)] else [])
           @ [case vel_reject e of Keep \<Rightarrow> RejectKeep | Reverse \<Rightarrow> RejectReverse])
    \<and> (l_hop s \<and> rstate s \<noteq> rstate_old s \<and> \<not> l_reject s' \<longrightarrow>
         (\<exists>a b det.
            quadratic (vel_rescale e) (mass e) (nac e (rstate_old s) (rstate s)) (vel s)
              (energy e (rstate s) - energy e (rstate_old s)) = Inr (a, b, det)
            \<and> event s' = event s
                @ (if vel_rescale e = Augment \<and> det < 0 then [AcceptSimple] else [])
                @ [AcceptHop (rstate_old s) (rstate s)]))"
proof (cases "l_hop s")
  case False
  with assms show ?thesis by (auto simp: evaluate_hop_def)
next
  case True
  let ?pd = "energy e (rstate s) - energy e (rstate_old s)"
  from evaluate_hop_body [OF True assms] obtain s1 where
    b: "hop_body e (mass e) (vel s) (take (nat_qm e)) s = Inr s1"
    and s': "s' = (if rstate s1 \<noteq> rstate_old s1
               then s1\<lparr>event := event s1 @ [AcceptHop (rstate_old s1) (rstate s1)]\<rparr> else s1)"
    by blast
  from s' have lr: "l_reject s' = l_reject s1" by simp
  from hop_body_result [OF b] obtain a b' det where
    q: "quadratic (vel_rescale e) (mass e) (nac e (rstate_old s) (rstate s)) (vel s) ?pd
          = Inr (a, b', det)"
    and fr: "l_reject s1 = frustrated (vel_rescale e) (ekin_qm s) ?pd det (eps e)"
    and ro: "rstate_old s1 = rstate_old s"
    and rj: "l_reject s1 \<longrightarrow> rstate s1 = rstate_old s
          \<and> event s1 = event s
              @ (if ekin_qm s < ?pd then [RejectKinetic (rstate s) (rstate_old s)] else [])
              @ [case vel_reject e of Keep \<Rightarrow> RejectKeep | Reverse \<Rightarrow> RejectReverse]"
    and ac: "\<not> l_reject s1 \<longrightarrow> rstate s1 = rstate s
          \<and> event s1 = event s @ (if det < 0 then [AcceptSimple] else [])"
    by blast
  show ?thesis
  proof (cases "l_reject s1")
    case True
    with rj ro s' lr \<open>l_hop s\<close> show ?thesis by simp
  next
    case False
    with fr have nf: "\<not> frustrated (vel_rescale e) (ekin_qm s) ?pd det (eps e)" by simp
    have c: "(vel_rescale e = Augment \<and> det < 0) = (det < 0)"
      using frustrated_negative_det [OF nf] by auto
    have "event s' = event s
        @ (if vel_rescale e = Augment \<and> det < 0 then [AcceptSimple] else [])
        @ [AcceptHop (rstate_old s) (rstate s)]"
      if "rstate s \<noteq> rstate_old s"
      using that False ac ro s' unfolding c by simp
    with q False lr \<open>l_hop s\<close> show ?thesis by blast
  qed
qed

theorem hop_event_lines_witness:
  "evaluate_hop (two_state_env Velocity Keep) (selected_hop 1 (1 / 2))
     = Inr (accepted_hop (selected_hop 1 (1 / 2)) [[0]] 0 [AcceptHop 0 1])
   \<and> l_hop (selected_hop 1 (1 / 2))
   \<and> rstate (selected_hop 1 (1 / 2)) \<noteq> rstate_old (selected_hop 1 (1 / 2))
   \<and> \<not> l_reject (accepted_hop (selected_hop 1 (1 / 2)) [[0]] 0 [AcceptHop 0 1])
   \<and> quadratic Velocity [1] [[1]] [[1]] (1 / 2) = Inr (1, 2, 0)
   \<and> event (accepted_hop (selected_hop 1 (1 / 2)) [[0]] 0 [AcceptHop 0 1])
       = event (selected_hop 1 (1 / 2)) @ [AcceptHop 0 1]
   \<and> evaluate_hop (planar_env Augment Reverse) planar_hop
     = Inr (accepted_hop planar_hop [[0, 3 / 4]] (9 / 32) [AcceptSimple, AcceptHop 0 1])
   \<and> l_hop planar_hop \<and> rstate planar_hop \<noteq> rstate_old planar_hop
   \<and> \<not> l_reject (accepted_hop planar_hop [[0, 3 / 4]] (9 / 32) [AcceptSimple, AcceptHop 0 1])
   \<and> quadratic Augment [1] [[1, 0]] [[0, 5 / 4]] (1 / 2) = Inr (1, 0, - 4)
   \<and> event (accepted_hop planar_hop [[0, 3 / 4]] (9 / 32) [AcceptSimple, AcceptHop 0 1])
       = event planar_hop @ [AcceptSimple] @ [AcceptHop 0 1]
   \<and> evaluate_hop (two_state_env Velocity Keep) silent_step = Inr silent_step
   \<and> \<not> l_hop silent_step \<and> rstate silent_step = rstate_old silent_step
   \<and> event silent_step = []"
proof -
  let ?e = "two_state_env Velocity Keep"
  let ?s = "selected_hop 1 (1 / 2)"
  let ?s' = "accepted_hop ?s [[0]] 0 [AcceptHop 0 1]"
  let ?p' = "accepted_hop planar_hop [[0, 3 / 4]] (9 / 32) [AcceptSimple, AcceptHop 0 1]"
  have r1: "evaluate_hop ?e ?s = Inr ?s'"
    by (simp add: hop_defs input_defs Let_def)
  have r2: "evaluate_hop ?e silent_step = Inr silent_step"
    by (simp add: evaluate_hop_def silent_step_def)
  have h1: "l_hop ?s \<and> rstate ?s \<noteq> rstate_old ?s \<and> \<not> l_reject ?s'"
    and h3: "l_hop planar_hop \<and> rstate planar_hop \<noteq> rstate_old planar_hop \<and> \<not> l_reject ?p'"
    and h2: "\<not> l_hop silent_step \<and> rstate silent_step = rstate_old silent_step"
    by (simp_all add: input_defs)
  have q: "quadratic Velocity [1] [[1]] [[1]] (1 / 2) = Inr (1, 2, 0)"
    "quadratic Augment [1] [[1, 0]] [[0, 5 / 4]] (1 / 2) = Inr (1, 0, - 4)"
    by (simp_all add: hop_defs)
  from hop_event_lines [OF r1] h1
  have e1: "\<exists>a b det.
      quadratic (vel_rescale ?e) (mass ?e) (nac ?e (rstate_old ?s) (rstate ?s)) (vel ?s)
        (energy ?e (rstate ?s) - energy ?e (rstate_old ?s)) = Inr (a, b, det)
      \<and> event ?s' = event ?s
          @ (if vel_rescale ?e = Augment \<and> det < 0 then [AcceptSimple] else [])
          @ [AcceptHop (rstate_old ?s) (rstate ?s)]"
    by blast
  have c1: "event ?s' = event ?s @ [AcceptHop 0 1]"
    using e1 by (auto simp: input_defs)
  from hop_event_lines [OF planar_eval] h3
  have e3: "\<exists>a b det.
      quadratic (vel_rescale (planar_env Augment Reverse)) (mass (planar_env Augment Reverse))
        (nac (planar_env Augment Reverse) (rstate_old planar_hop) (rstate planar_hop))
        (vel planar_hop)
        (energy (planar_env Augment Reverse) (rstate planar_hop)
           - energy (planar_env Augment Reverse) (rstate_old planar_hop)) = Inr (a, b, det)
      \<and> event ?p' = event planar_hop
          @ (if vel_rescale (planar_env Augment Reverse) = Augment \<and> det < 0
             then [AcceptSimple] else [])
          @ [AcceptHop (rstate_old planar_hop) (rstate planar_hop)]"
    by blast
  have c3: "event ?p' = event planar_hop @ [AcceptSimple] @ [AcceptHop 0 1]"
    using e3 by (auto simp: input_defs hop_defs)
  have c4: "event silent_step = []" by (simp add: input_defs)
  from r1 r2 planar_eval h1 h2 h3 q c1 c3 c4 show ?thesis by blast
qed

text \<open>
  Against C9 as stated: a hop frustrated for lack of kinetic energy appends two lines.
\<close>

theorem hop_event_two_lines:
  "evaluate_hop (two_state_env Energy Keep) (selected_hop (1 / 2) (1 / 8))
     = Inr (kept_hop (1 / 2) (1 / 8) [RejectKinetic 1 0, RejectKeep])
   \<and> l_hop (selected_hop (1 / 2) (1 / 8))
   \<and> l_reject (kept_hop (1 / 2) (1 / 8) [RejectKinetic 1 0, RejectKeep])
   \<and> length (event (kept_hop (1 / 2) (1 / 8) [RejectKinetic 1 0, RejectKeep]))
       = length (event (selected_hop (1 / 2) (1 / 8))) + 2"
  by (simp add: hop_defs input_defs Let_def)

text \<open>
  C3. In \<open>"augment"\<close> mode of \<open>mqc/sh.py\<close>, a selected hop whose kinetic energy exceeds the
  gap is not frustrated, whatever the discriminant: the rejection flag is false and
  the hop flag and the new running state stand. When the discriminant is negative the
  routine returns, and the first \<open>nat_qm\<close> rows of the velocities are multiplied by
  \<open>sqrt (1 - pot_diff / ekin_qm)\<close>. The masses are positive and the arrays have matching
  shapes.
\<close>

theorem augment_never_frustrated:
  assumes "vel_rescale e = Augment" and "l_hop s"
    and "energy e (rstate s) - energy e (rstate_old s) < ekin_qm s"
    and "\<forall>mi \<in> set (mass e). 0 < mi"
    and "quadratic Augment (mass e) (nac e (rstate_old s) (rstate s)) (vel s)
           (energy e (rstate s) - energy e (rstate_old s)) = Inr (a, b, det)"
  shows "\<not> frustrated Augment (ekin_qm s) (energy e (rstate s) - energy e (rstate_old s))
             det (eps e)
    \<and> (\<forall>s'. evaluate_hop e s = Inr s' \<longrightarrow> \<not> l_reject s' \<and> l_hop s' \<and> rstate s' = rstate s)
    \<and> (det < 0 \<longrightarrow>
          (\<exists>s'. evaluate_hop e s = Inr s' \<and> \<not> l_reject s' \<and> l_hop s' \<and> rstate s' = rstate s
             \<and> vel s' = scale_rows (nat_qm e)
                  (sqrt (1 - (energy e (rstate s) - energy e (rstate_old s)) / ekin_qm s))
                  (vel s)))"
proof (intro conjI allI impI)
  let ?pd = "energy e (rstate s) - energy e (rstate_old s)"
  show nf: "\<not> frustrated Augment (ekin_qm s) ?pd det (eps e)"
    using assms(3) by (simp add: frustrated_def)
  {
    fix s' assume r: "evaluate_hop e s = Inr s'"
    from evaluate_hop_body [OF assms(2) r] obtain s1 where
      b: "hop_body e (mass e) (vel s) (take (nat_qm e)) s = Inr s1"
      and s': "s' = (if rstate s1 \<noteq> rstate_old s1
               then s1\<lparr>event := event s1 @ [AcceptHop (rstate_old s1) (rstate s1)]\<rparr> else s1)"
      by blast
    from hop_body_result [OF b] assms(1,5) nf
    have "\<not> l_reject s1 \<and> l_hop s1 = l_hop s \<and> rstate s1 = rstate s" by auto
    with s' assms(2) show "\<not> l_reject s'" "l_hop s'" "rstate s' = rstate s" by auto
  }
  assume neg: "det < 0"
  from assms(5) obtain a0 b0 where cm:
    "coeff_momentum (mass e) (nac e (rstate_old s) (rstate s)) (vel s) = Inr (a0, b0)"
    and det: "det = b0 * b0 - 4 * a0 * (2 * ?pd)" and "a = a0" 
    by (auto simp: quadratic_def split: sum.splits)
  from coeff_momentum_a_nonneg [OF cm assms(4)] have a0: "0 \<le> a0" .
  have pd: "0 < ?pd"
  proof (rule ccontr)
    assume "\<not> 0 < ?pd"
    then have "a0 * (2 * ?pd) \<le> 0" using a0 by (simp add: mult_nonneg_nonpos)
    moreover have "0 \<le> b0 * b0" by simp
    ultimately show False using neg det by linarith
  qed
  with assms(3) have ek: "0 < ekin_qm s" by linarith
  from pd assms(3) ek have q: "?pd / ekin_qm s < 1" by simp
  have x: "accept_factor Augment (ekin_qm s) ?pd a b det
             = Inr (sqrt (1 - ?pd / ekin_qm s))"
    using neg ek q by (simp add: accept_factor_def np_div_def np_sqrt_def)
  have v: "rescale_vel Augment (nat_qm e) (sqrt (1 - ?pd / ekin_qm s))
             (take (nat_qm e) (nac e (rstate_old s) (rstate s))) (mass e) det (ekin_qm s) ?pd
             (vel s)
           = Inr (scale_rows (nat_qm e) (sqrt (1 - ?pd / ekin_qm s)) (vel s))"
    using neg assms(3) by (simp add: rescale_vel_def)
  from assms(1,2,5) nf x v
  show "\<exists>s'. evaluate_hop e s = Inr s' \<and> \<not> l_reject s' \<and> l_hop s' \<and> rstate s' = rstate s
             \<and> vel s' = scale_rows (nat_qm e) (sqrt (1 - ?pd / ekin_qm s)) (vel s)"
    by (simp add: evaluate_hop_def hop_body_def Let_def update_kinetic_def)
qed

theorem augment_never_frustrated_witness:
  "vel_rescale (planar_env Augment Reverse) = Augment \<and> l_hop planar_hop
   \<and> energy (planar_env Augment Reverse) (rstate planar_hop)
         - energy (planar_env Augment Reverse) (rstate_old planar_hop) < ekin_qm planar_hop
   \<and> mass (planar_env Augment Reverse) = [1]
   \<and> quadratic Augment [1] [[1, 0]] [[0, 5 / 4]] (1 / 2) = Inr (1, 0, - 4)
   \<and> \<not> frustrated Augment (25 / 32) (1 / 2) (- 4) (eps (planar_env Augment Reverse))
   \<and> evaluate_hop (planar_env Augment Reverse) planar_hop
       = Inr (accepted_hop planar_hop [[0, 3 / 4]] (9 / 32) [AcceptSimple, AcceptHop 0 1])
   \<and> scale_rows 1 (sqrt (1 - (1 / 2) / (25 / 32))) [[0, 5 / 4]] = [[0, 3 / 4]]"
proof -
  let ?e = "planar_env Augment Reverse"
  have h: "vel_rescale ?e = Augment" "l_hop planar_hop"
    "energy ?e (rstate planar_hop) - energy ?e (rstate_old planar_hop) < ekin_qm planar_hop"
    "\<forall>mi \<in> set (mass ?e). 0 < mi"
    by (simp_all add: input_defs)
  have q: "quadratic Augment (mass ?e) (nac ?e (rstate_old planar_hop) (rstate planar_hop))
             (vel planar_hop)
             (energy ?e (rstate planar_hop) - energy ?e (rstate_old planar_hop))
           = Inr (1, 0, - 4)"
    by (simp add: hop_defs input_defs)
  from augment_never_frustrated [OF h q] planar_eval h q show ?thesis
    by (simp add: input_defs scale_rows_def sqrt_9_25)
qed

text \<open>
  C1 at the input where the code departs from it. In \<open>"augment"\<close> mode the source takes
  the factor from the quadratic unless \<open>det < 0.\<close>, but adds it along the coupling only
  if \<open>det > 0. or ekin_qm < pot_diff\<close>. For a discriminant of exactly zero the root of
  the quadratic is therefore used as a multiplier. One atom of mass one and velocity
  one, coupling one, gap one half: \<open>a = 1\<close>, \<open>b = 2\<close>, \<open>det = 0\<close>, the root is \<open>- 1\<close>, and
  both classes accept the hop and turn the velocity to \<open>- 1\<close>. Kinetic plus potential
  energy is one half before the hop and one after it.
\<close>

theorem augment_zero_discriminant:
  "evaluate_hop (two_state_env Augment Keep) (selected_hop 1 (1 / 2))
     = Inr (accepted_hop (selected_hop 1 (1 / 2)) [[- 1]] (1 / 2) [AcceptHop 0 1])
   \<and> evaluate_hop_qed (two_state_env Augment Keep) (cavity False 0) (selected_hop 1 (1 / 2))
     = Inr (accepted_hop (selected_hop 1 (1 / 2)) [[- 1]] (1 / 2) [AcceptHop 0 1])
   \<and> quadratic Augment [1] [[1]] [[1]] (1 / 2) = Inr (1, 2, 0)
   \<and> kinetic [1] [[1]] + energy (two_state_env Augment Keep) 0 = 1 / 2
   \<and> kinetic [1] [[- 1]] + energy (two_state_env Augment Keep) 1 = 1"
  by (simp add: hop_defs input_defs Let_def)

section \<open>Properties of \<open>hop_check\<close>\<close>

lemma hop_check_loop_past:
  assumes "sorted (acc_prob s)" and "rand s \<le> acc_prob s ! k" and "k \<le> n"
    and "n < length (acc_prob s)"
  shows "hop_check_loop [k..<n] s = Inr s"
  using assms
proof (induction "n - k" arbitrary: k)
  case 0
  then show ?case by simp
next
  case (Suc m)
  then have kn: "k < n" by simp
  have "acc_prob s ! k \<le> acc_prob s ! Suc k"
    using Suc.prems(1,4) kn by (simp add: sorted_iff_nth_mono)
  with Suc.prems(2) have le: "rand s \<le> acc_prob s ! Suc k" by simp
  have ih: "hop_check_loop [Suc k..<n] s = Inr s"
    using Suc.hyps(1) [of "Suc k"] Suc.hyps(2) Suc.prems(1,4) kn le by simp
  from kn have upt: "[k..<n] = k # [Suc k..<n]" by (simp add: upt_rec)
  from kn Suc.prems(4) have "k < length (acc_prob s)" by simp
  with ih Suc.prems(2) show ?case unfolding upt by auto
qed

lemma hop_check_loop_find:
  assumes "sorted (acc_prob s)" and "n < length (acc_prob s)" and "bo_list s \<noteq> []"
    and "k \<le> n"
  shows "hop_check_loop [k..<n] s =
     (case find (in_interval s) [k..<n] of
        None \<Rightarrow> Inr s
      | Some i \<Rightarrow> Inr (s\<lparr>l_hop := True, rstate := i, bo_list := i # tl (bo_list s)\<rparr>))"
  using assms
proof (induction "n - k" arbitrary: k)
  case 0
  then show ?case by simp
next
  case (Suc m)
  then have kn: "k < n" by simp
  then have upt: "[k..<n] = k # [Suc k..<n]" by (simp add: upt_rec)
  have ih: "hop_check_loop [Suc k..<n] s =
     (case find (in_interval s) [Suc k..<n] of
        None \<Rightarrow> Inr s
      | Some i \<Rightarrow> Inr (s\<lparr>l_hop := True, rstate := i, bo_list := i # tl (bo_list s)\<rparr>))"
    using Suc.hyps(1) [of "Suc k"] Suc.hyps(2) Suc.prems kn by simp
  show ?case
  proof (cases "in_interval s k")
    case False
    with ih kn Suc.prems(2) show ?thesis
      unfolding upt by (auto simp: in_interval_def)
  next
    case True
    obtain x xs where bl: "bo_list s = x # xs" using Suc.prems(3) by (cases "bo_list s") auto
    let ?s1 = "s\<lparr>l_hop := True, rstate := k, bo_list := k # xs\<rparr>"
    have "hop_check_loop [Suc k..<n] ?s1 = Inr ?s1"
      using True Suc.prems(1,2) kn
      by (intro hop_check_loop_past) (simp_all add: in_interval_def)
    with True kn Suc.prems(2) bl show ?thesis
      unfolding upt by (simp add: in_interval_def set_first_def)
  qed
qed

lemma interval_unique:
  fixes acc :: "real list"
  assumes "sorted acc" and "i + 1 < length acc" and "j + 1 < length acc"
    and "acc ! i < r" and "r \<le> acc ! (i + 1)" and "acc ! j < r" and "r \<le> acc ! (j + 1)"
  shows "i = j"
proof (rule ccontr)
  assume "i \<noteq> j"
  then consider "i + 1 \<le> j" | "j + 1 \<le> i" by linarith
  then show False
  proof cases
    case 1
    then have "acc ! (i + 1) \<le> acc ! j" using assms(1,3) by (simp add: sorted_iff_nth_mono)
    with assms show False by linarith
  next
    case 2
    then have "acc ! (j + 1) \<le> acc ! i" using assms(1,2) by (simp add: sorted_iff_nth_mono)
    with assms show False by linarith
  qed
qed

lemma hop_check_find:
  assumes "sorted (acc_prob s)" and "length (acc_prob s) = nst e + 1" and "bo_list s \<noteq> []"
  shows "hop_check e r s =
     (case find (in_interval (s\<lparr>rand := r\<rparr>)) [0..<nst e] of
        None \<Rightarrow> Inr (s\<lparr>rand := r\<rparr>)
      | Some i \<Rightarrow> Inr (s\<lparr>rand := r, l_hop := True, rstate := i, bo_list := i # tl (bo_list s)\<rparr>))"
proof -
  have "hop_check_loop [0..<nst e] (s\<lparr>rand := r\<rparr>) =
     (case find (in_interval (s\<lparr>rand := r\<rparr>)) [0..<nst e] of
        None \<Rightarrow> Inr (s\<lparr>rand := r\<rparr>)
      | Some i \<Rightarrow> Inr (s\<lparr>rand := r, l_hop := True, rstate := i,
                          bo_list := i # tl (bo_list (s\<lparr>rand := r\<rparr>))\<rparr>))"
    using assms by (intro hop_check_loop_find) simp_all
  then show ?thesis by (simp add: hop_check_def split: option.splits)
qed

lemma hop_check_selects:
  assumes "sorted (acc_prob s)" and "length (acc_prob s) = nst e + 1" and "bo_list s \<noteq> []"
    and "i < nst e" and "i \<noteq> rstate s"
    and "acc_prob s ! i < r" and "r \<le> acc_prob s ! (i + 1)"
  shows "hop_check e r s
     = Inr (s\<lparr>rand := r, l_hop := True, rstate := i, bo_list := i # tl (bo_list s)\<rparr>)"
proof -
  let ?s = "s\<lparr>rand := r\<rparr>"
  from assms(4-7) have "in_interval ?s i" "i \<in> set [0..<nst e]"
    by (simp_all add: in_interval_def)
  then obtain j where f: "find (in_interval ?s) [0..<nst e] = Some j"
    by (cases "find (in_interval ?s) [0..<nst e]") (auto simp: find_None_iff)
  then have j: "in_interval ?s j" "j < nst e"
    by (auto simp: find_Some_iff)
  have "j = i"
    using interval_unique [OF assms(1), of j i r] j assms(2,4-7)
    by (simp add: in_interval_def)
  with hop_check_find [OF assms(1-3), of r] f show ?thesis by simp
qed

lemma hop_check_misses:
  assumes "sorted (acc_prob s)" and "length (acc_prob s) = nst e + 1" and "bo_list s \<noteq> []"
    and "\<forall>i. i < nst e \<and> i \<noteq> rstate s
           \<longrightarrow> \<not> (acc_prob s ! i < r \<and> r \<le> acc_prob s ! (i + 1))"
  shows "hop_check e r s = Inr (s\<lparr>rand := r\<rparr>)"
proof -
  from assms(4) have "find (in_interval (s\<lparr>rand := r\<rparr>)) [0..<nst e] = None"
    by (auto simp: find_None_iff in_interval_def)
  with hop_check_find [OF assms(1-3), of r] show ?thesis by simp
qed

text \<open>
  C4. For a non-decreasing vector \<open>acc_prob\<close> of length \<open>nst + 1\<close> and any draw \<open>r\<close>:
  at most one interval \<open>acc_prob[i] < r \<le> acc_prob[i + 1]\<close> contains the draw; when the
  interval of a candidate \<open>i\<close> (a state other than the running one) contains it,
  \<open>hop_check\<close> sets the hop flag, makes \<open>i\<close> the running state and writes \<open>i\<close> to the
  first entry of the caller's list; when no candidate's interval contains it, the
  state is unchanged but for the stored draw; and a draw equal to \<open>acc_prob[i]\<close> never
  selects \<open>i\<close>.
\<close>

theorem hop_check_intervals:
  assumes "sorted (acc_prob s)" and "length (acc_prob s) = nst e + 1" and "bo_list s \<noteq> []"
  shows "(\<forall>i j. i < nst e \<and> j < nst e
            \<and> acc_prob s ! i < r \<and> r \<le> acc_prob s ! (i + 1)
            \<and> acc_prob s ! j < r \<and> r \<le> acc_prob s ! (j + 1) \<longrightarrow> i = j)
    \<and> (\<forall>i. i < nst e \<and> i \<noteq> rstate s \<and> acc_prob s ! i < r \<and> r \<le> acc_prob s ! (i + 1)
          \<longrightarrow> hop_check e r s
                = Inr (s\<lparr>rand := r, l_hop := True, rstate := i, bo_list := i # tl (bo_list s)\<rparr>))
    \<and> ((\<forall>i. i < nst e \<and> i \<noteq> rstate s
              \<longrightarrow> \<not> (acc_prob s ! i < r \<and> r \<le> acc_prob s ! (i + 1)))
          \<longrightarrow> hop_check e r s = Inr (s\<lparr>rand := r\<rparr>))
    \<and> (\<forall>i s'. i < nst e \<and> i \<noteq> rstate s \<and> r = acc_prob s ! i \<and> hop_check e r s = Inr s'
          \<longrightarrow> rstate s' \<noteq> i)"
proof -
  let ?s = "s\<lparr>rand := r\<rparr>"
  let ?acc = "acc_prob s"
  have uniq: "i = j" if "i < nst e" "j < nst e" "?acc ! i < r" "r \<le> ?acc ! (i + 1)"
      "?acc ! j < r" "r \<le> ?acc ! (j + 1)" for i j
    using interval_unique [OF assms(1) _ _ that(3-6)] that(1,2) assms(2) by simp
  note loop = hop_check_find [OF assms, of r]
  have bound: "rstate s' \<noteq> i"
    if "i < nst e" "i \<noteq> rstate s" "r = ?acc ! i" "hop_check e r s = Inr s'" for i s'
  proof (cases "find (in_interval ?s) [0..<nst e]")
    case None
    with loop that show ?thesis by auto
  next
    case (Some j)
    then have "in_interval ?s j" by (auto simp: find_Some_iff)
    with that(3) have "j \<noteq> i" by (auto simp: in_interval_def)
    with loop Some that(4) show ?thesis by auto
  qed
  from uniq hop_check_selects [OF assms] hop_check_misses [OF assms] bound
  show ?thesis by blast
qed

theorem hop_check_intervals_witness:
  "sorted (acc_prob before_check)
   \<and> length (acc_prob before_check) = nst (two_state_env Momentum Reverse) + 1
   \<and> bo_list before_check \<noteq> []
   \<and> acc_prob before_check ! 1 < 1 / 4 \<and> 1 / 4 \<le> acc_prob before_check ! 2
   \<and> hop_check (two_state_env Momentum Reverse) (1 / 4) before_check
       = Inr (before_check\<lparr>rand := 1 / 4, l_hop := True, rstate := 1, bo_list := [1]\<rparr>)
   \<and> hop_check (two_state_env Momentum Reverse) (3 / 4) before_check
       = Inr (before_check\<lparr>rand := 3 / 4\<rparr>)"
proof -
  let ?e = "two_state_env Momentum Reverse"
  have h: "sorted (acc_prob before_check)" "length (acc_prob before_check) = nst ?e + 1"
    "bo_list before_check \<noteq> []"
    by (simp_all add: input_defs)
  have i1: "(1::nat) < nst ?e \<and> 1 \<noteq> rstate before_check
      \<and> acc_prob before_check ! 1 < 1 / 4 \<and> 1 / 4 \<le> acc_prob before_check ! (1 + 1)"
    by (simp add: input_defs)
  have i2: "\<forall>i. i < nst ?e \<and> i \<noteq> rstate before_check
      \<longrightarrow> \<not> (acc_prob before_check ! i < 3 / 4 \<and> 3 / 4 \<le> acc_prob before_check ! (i + 1))"
    by (auto simp: input_defs less_Suc_eq)
  from hop_check_intervals [OF h, of "1 / 4"] i1
  have "hop_check ?e (1 / 4) before_check
     = Inr (before_check\<lparr>rand := 1 / 4, l_hop := True, rstate := 1,
                            bo_list := 1 # tl (bo_list before_check)\<rparr>)"
    by blast
  moreover from hop_check_intervals [OF h, of "3 / 4"] i2
  have "hop_check ?e (3 / 4) before_check = Inr (before_check\<lparr>rand := 3 / 4\<rparr>)"
    by blast
  ultimately show ?thesis using h i1 by (simp add: input_defs)
qed

section \<open>Properties of \<open>hop_prob\<close>\<close>

lemma prob_loop_upt:
  assumes "\<forall>i. k \<le> i \<and> i < n \<and> i \<noteq> r \<longrightarrow> f i = Inr (g i)"
    and "n \<le> length p" and "n < length acc" and "k \<le> n"
  shows "\<exists>p' acc'.
      prob_loop f r [k..<n] (p, acc, accum)
        = Inr (p', acc', accum + (\<Sum>i = k..<n. if i = r then 0 else g i))
      \<and> length p' = length p \<and> length acc' = length acc
      \<and> (\<forall>i<length p. p' ! i = (if k \<le> i \<and> i < n \<and> i \<noteq> r then g i else p ! i))
      \<and> (\<forall>j<length acc. acc' ! j =
            (if k < j \<and> j \<le> n then accum + (\<Sum>i = k..<j. if i = r then 0 else g i)
             else acc ! j))"
  using assms
proof (induction "n - k" arbitrary: k p acc accum)
  case 0
  then show ?case by simp
next
  case (Suc m)
  then have kn: "k < n" by simp
  then have upt: "[k..<n] = k # [Suc k..<n]" by (simp add: upt_rec)
  let ?raw = "\<lambda>i. if i = r then 0 else g i"
  let ?p1 = "if k \<noteq> r then p[k := g k] else p"
  let ?acc1 = "acc[k + 1 := accum + ?raw k]"
  have step: "prob_loop f r [k..<n] (p, acc, accum)
      = prob_loop f r [Suc k..<n] (?p1, ?acc1, accum + ?raw k)"
    unfolding upt using Suc.prems(1) kn by simp
  have "\<exists>p' acc'.
      prob_loop f r [Suc k..<n] (?p1, ?acc1, accum + ?raw k)
        = Inr (p', acc', accum + ?raw k + (\<Sum>i = Suc k..<n. ?raw i))
      \<and> length p' = length ?p1 \<and> length acc' = length ?acc1
      \<and> (\<forall>i<length ?p1. p' ! i = (if Suc k \<le> i \<and> i < n \<and> i \<noteq> r then g i else ?p1 ! i))
      \<and> (\<forall>j<length ?acc1. acc' ! j =
            (if Suc k < j \<and> j \<le> n then accum + ?raw k + (\<Sum>i = Suc k..<j. ?raw i)
             else ?acc1 ! j))"
    using Suc.hyps(2) Suc.prems kn by (intro Suc.hyps(1)) auto
  then obtain p' acc' where
    r: "prob_loop f r [Suc k..<n] (?p1, ?acc1, accum + ?raw k)
        = Inr (p', acc', accum + ?raw k + (\<Sum>i = Suc k..<n. ?raw i))"
    and lp: "length p' = length p" and la: "length acc' = length acc"
    and pn: "\<forall>i<length p. p' ! i = (if Suc k \<le> i \<and> i < n \<and> i \<noteq> r then g i else ?p1 ! i)"
    and an: "\<forall>j<length acc. acc' ! j =
            (if Suc k < j \<and> j \<le> n then accum + ?raw k + (\<Sum>i = Suc k..<j. ?raw i)
             else ?acc1 ! j)"
    by auto
  have sum_n: "(\<Sum>i = k..<n. ?raw i) = ?raw k + (\<Sum>i = Suc k..<n. ?raw i)"
    using kn by (simp add: sum.atLeast_Suc_lessThan)
  have p_ok: "\<forall>i<length p. p' ! i = (if k \<le> i \<and> i < n \<and> i \<noteq> r then g i else p ! i)"
  proof (intro allI impI)
    fix i assume i: "i < length p"
    show "p' ! i = (if k \<le> i \<and> i < n \<and> i \<noteq> r then g i else p ! i)"
    proof (cases "i = k")
      case True
      with pn i kn show ?thesis by simp
    next
      case False
      with pn i show ?thesis by auto
    qed
  qed
  have a_ok: "\<forall>j<length acc. acc' ! j =
            (if k < j \<and> j \<le> n then accum + (\<Sum>i = k..<j. ?raw i) else acc ! j)"
  proof (intro allI impI)
    fix j assume j: "j < length acc"
    show "acc' ! j = (if k < j \<and> j \<le> n then accum + (\<Sum>i = k..<j. ?raw i) else acc ! j)"
    proof (cases "j = Suc k")
      case True
      with an j kn show ?thesis by simp
    next
      case False
      show ?thesis
      proof (cases "Suc k < j \<and> j \<le> n")
        case True
        then have "(\<Sum>i = k..<j. ?raw i) = ?raw k + (\<Sum>i = Suc k..<j. ?raw i)"
          by (simp add: sum.atLeast_Suc_lessThan)
        with an j True show ?thesis by simp
      next
        case F2: False
        with an j False show ?thesis by auto
      qed
    qed
  qed
  from step r lp la p_ok a_ok sum_n show ?case by auto
qed

lemma clamped_ratio_finite:
  "den \<noteq> 0 \<Longrightarrow> clamped_ratio num den = Inr (max 0 (num / den))"
  by (simp add: clamped_ratio_def max_def)

lemma prob_loop_whole:
  assumes "\<forall>i. i < n \<and> i \<noteq> r \<longrightarrow> f i = Inr (g i)"
  defines "raw \<equiv> \<lambda>i. if i = r then 0 else g i"
  shows "\<exists>p' acc'.
      prob_loop f r [0..<n] (replicate n 0, replicate (n + 1) 0, 0) = Inr (p', acc', sum raw {..<n})
      \<and> length p' = n \<and> length acc' = n + 1
      \<and> (\<forall>i<n. p' ! i = raw i)
      \<and> (\<forall>j\<le>n. acc' ! j = sum raw {..<j})"
proof -
  from prob_loop_upt [of 0 n r f g "replicate n 0" "replicate (n + 1) 0" 0] assms(1)
  obtain p' acc' where
    r: "prob_loop f r [0..<n] (replicate n 0, replicate (n + 1) 0, 0)
        = Inr (p', acc', 0 + (\<Sum>i = 0..<n. if i = r then 0 else g i))"
    and l: "length p' = n" "length acc' = n + 1"
    and pn: "\<forall>i<n. p' ! i = (if 0 \<le> i \<and> i < n \<and> i \<noteq> r then g i else replicate n 0 ! i)"
    and an: "\<forall>j<n + 1. acc' ! j =
            (if 0 < j \<and> j \<le> n then 0 + (\<Sum>i = 0..<j. if i = r then 0 else g i)
             else replicate (n + 1) 0 ! j)"
    by auto
  have "\<forall>i<n. p' ! i = raw i" using pn by (simp add: raw_def)
  moreover have "\<forall>j\<le>n. acc' ! j = sum raw {..<j}"
  proof (intro allI impI)
    fix j assume "j \<le> n"
    with an show "acc' ! j = sum raw {..<j}"
      by (cases "j = 0") (simp_all add: raw_def atLeast0LessThan)
  qed
  ultimately show ?thesis using r l by (simp add: raw_def atLeast0LessThan)
qed

lemma normalise_whole:
  assumes "length p = n" and "\<forall>i<n. p ! i = raw i" and "length acc = n + 1"
    and "acc ! n = sum raw {..<n}"
  shows "length (prob (normalise n (p, acc, accum) s)) = n
    \<and> (\<forall>i<n. prob (normalise n (p, acc, accum) s) ! i = renormalised raw n i)"
  using assms by (simp add: normalise_def renormalised_def Let_def)

text \<open>
  C2, as amended. \<open>hop_prob\<close> has no test on the population of the running state: for
  every population other than zero, however small, it divides by it. The entry of a
  candidate is the quotient clamped at zero, the entry of the running state is zero,
  and the vector is divided by its sum when the sum exceeds one. This holds in
  \<open>mqc/sh.py\<close>, and in \<open>mqc_qed/sh.py\<close> when no trivial crossing is flagged.
\<close>

theorem hop_prob_unguarded:
  "(Re (rho s (rstate s) (rstate s)) \<noteq> 0 \<longrightarrow>
      (\<exists>s'. hop_prob e s = Inr s' \<and> length (prob s') = nst e
         \<and> (\<forall>i<nst e. prob s' ! i = renormalised (hop_raw e s) (nst e) i)))
   \<and> (Re (rho s (rstate s) (rstate s)) \<noteq> 0 \<and> \<not> l_trivial q \<longrightarrow>
      (\<exists>s'. hop_prob_qed e q s = Inr s' \<and> length (prob s') = nst e
         \<and> (\<forall>i<nst e. prob s' ! i = renormalised (hop_raw_qed e q s) (nst e) i)))"
proof (intro conjI impI)
  let ?s0 = "reset_hop e s"
  have s0: "rho ?s0 = rho s" "rstate ?s0 = rstate s" "prob ?s0 = replicate (nst e) 0"
    "acc_prob ?s0 = replicate (nst e + 1) 0"
    by (simp_all add: reset_hop_def)
  {
    assume den: "Re (rho s (rstate s) (rstate s)) \<noteq> 0"
    let ?g = "\<lambda>i. max 0 (- 2 * Re (rho s i (rstate s)) * nacme e i (rstate s) * dt e
                  / Re (rho s (rstate s) (rstate s)))"
    have raw: "hop_raw e s = (\<lambda>i. if i = rstate s then 0 else ?g i)"
      by (rule ext) (simp add: hop_raw_def)
    have "\<forall>i. i < nst e \<and> i \<noteq> rstate s \<longrightarrow> prob_entry e (rho s) (rstate s) i = Inr (?g i)"
      using den by (simp add: prob_entry_def clamped_ratio_finite)
    from prob_loop_whole [OF this] obtain p' acc' where
      r: "prob_loop (prob_entry e (rho s) (rstate s)) (rstate s) [0..<nst e]
            (replicate (nst e) 0, replicate (nst e + 1) 0, 0)
          = Inr (p', acc', sum (hop_raw e s) {..<nst e})"
      and l: "length p' = nst e" "length acc' = nst e + 1"
      and pn: "\<forall>i<nst e. p' ! i = hop_raw e s i"
      and an: "\<forall>j\<le>nst e. acc' ! j = sum (hop_raw e s) {..<j}"
      unfolding raw by blast
    from an have "acc' ! nst e = sum (hop_raw e s) {..<nst e}" by simp
    from normalise_whole [OF l(1) pn l(2) this] r s0
    show "\<exists>s'. hop_prob e s = Inr s' \<and> length (prob s') = nst e
         \<and> (\<forall>i<nst e. prob s' ! i = renormalised (hop_raw e s) (nst e) i)"
      by (simp add: hop_prob_def Let_def)
  }
  {
    assume h: "Re (rho s (rstate s) (rstate s)) \<noteq> 0 \<and> \<not> l_trivial q"
    let ?g = "\<lambda>i. max 0 (- 2 * (Im (rho s (rstate s) i) * tmp_ham (nst e) q (rstate s) i
                         - Re (rho s (rstate s) i) * nacme e (rstate s) i) * dt e
                  / Re (rho s (rstate s) (rstate s)))"
    have raw: "hop_raw_qed e q s = (\<lambda>i. if i = rstate s then 0 else ?g i)"
      by (rule ext) (simp add: hop_raw_qed_def)
    have "\<forall>i. i < nst e \<and> i \<noteq> rstate s
        \<longrightarrow> prob_entry_qed e (tmp_ham (nst e) q) (rho s) (rstate s) i = Inr (?g i)"
      using h by (simp add: prob_entry_qed_def clamped_ratio_finite)
    from prob_loop_whole [OF this] obtain p' acc' where
      r: "prob_loop (prob_entry_qed e (tmp_ham (nst e) q) (rho s) (rstate s)) (rstate s)
            [0..<nst e] (replicate (nst e) 0, replicate (nst e + 1) 0, 0)
          = Inr (p', acc', sum (hop_raw_qed e q s) {..<nst e})"
      and l: "length p' = nst e" "length acc' = nst e + 1"
      and pn: "\<forall>i<nst e. p' ! i = hop_raw_qed e q s i"
      and an: "\<forall>j\<le>nst e. acc' ! j = sum (hop_raw_qed e q s) {..<j}"
      unfolding raw by blast
    from an have "acc' ! nst e = sum (hop_raw_qed e q s) {..<nst e}" by simp
    from normalise_whole [OF l(1) pn l(2) this] r s0 h
    show "\<exists>s'. hop_prob_qed e q s = Inr s' \<and> length (prob s') = nst e
         \<and> (\<forall>i<nst e. prob s' ! i = renormalised (hop_raw_qed e q s) (nst e) i)"
      by (simp add: hop_prob_qed_def Let_def)
  }
qed

lemmas prob_defs =
  hop_prob_def hop_prob_qed_def reset_hop_def prob_entry_def prob_entry_qed_def
  prob_entry_trivial_def clamped_ratio_def normalise_def tmp_ham_def matmul_def
  eval_nat_numeral

text \<open>
  Against C2 as stated: on the lower of two states with a population of \<open>10^-20\<close> there,
  below \<open>eps = 10^-12\<close>, both classes divide by the population and give the upper state
  the probability one, not zero.
\<close>

theorem hop_prob_small_population:
  "Re (rho (faint_state (- 1 / 10 ^ 10)) 0 0) < eps (two_state_env Momentum Reverse)
   \<and> hop_prob (two_state_env Momentum Reverse) (faint_state (- 1 / 10 ^ 10))
       = Inr ((faint_state (- 1 / 10 ^ 10))\<lparr>prob := [0, 1], acc_prob := [0, 0, 1]\<rparr>)
   \<and> Re (rho (faint_state (1 / 10 ^ 10)) 0 0) < eps (two_state_env Momentum Reverse)
   \<and> hop_prob_qed (two_state_env Momentum Reverse) (cavity False 0) (faint_state (1 / 10 ^ 10))
       = Inr ((faint_state (1 / 10 ^ 10))\<lparr>prob := [0, 1], acc_prob := [0, 0, 1]\<rparr>)"
  by (simp add: prob_defs input_defs Let_def)

theorem hop_prob_unguarded_witness:
  "Re (rho (faint_state (- 1 / 10 ^ 10)) (rstate (faint_state (- 1 / 10 ^ 10)))
         (rstate (faint_state (- 1 / 10 ^ 10)))) \<noteq> 0
   \<and> \<not> l_trivial (cavity False 0)
   \<and> (\<exists>s'. hop_prob (two_state_env Momentum Reverse) (faint_state (- 1 / 10 ^ 10)) = Inr s'
         \<and> length (prob s') = 2 \<and> prob s' ! 0 = 0 \<and> prob s' ! 1 = 1)
   \<and> (\<exists>s'. hop_prob_qed (two_state_env Momentum Reverse) (cavity False 0)
              (faint_state (- 1 / 10 ^ 10)) = Inr s'
         \<and> length (prob s') = 2 \<and> prob s' ! 0 = 0 \<and> prob s' ! 1 = 0)"
proof -
  let ?e = "two_state_env Momentum Reverse"
  let ?s = "faint_state (- 1 / 10 ^ 10)"
  let ?q = "cavity False 0"
  have h: "Re (rho ?s (rstate ?s) (rstate ?s)) \<noteq> 0" "\<not> l_trivial ?q"
    by (simp_all add: input_defs)
  have n: "nst ?e = 2" by (simp add: input_defs)
  have v: "renormalised (hop_raw ?e ?s) 2 0 = 0" "renormalised (hop_raw ?e ?s) 2 1 = 1"
    "renormalised (hop_raw_qed ?e ?q ?s) 2 0 = 0" "renormalised (hop_raw_qed ?e ?q ?s) 2 1 = 0"
    by (simp_all add: renormalised_def hop_raw_def hop_raw_qed_def input_defs tmp_ham_def
        matmul_def lessThan_Suc eval_nat_numeral Let_def)
  from hop_prob_unguarded [of ?s ?e ?q] h n v show ?thesis
    by (auto simp: eval_nat_numeral)
qed





section \<open>Properties of \<open>correct_dec_edc\<close>\<close>

lemma edc_coef_loop_result:
  assumes "\<forall>i \<in> set ists. i \<noteq> rstate s \<longrightarrow> exp_tau e s i = Fin (f i)" and "distinct ists"
  shows "edc_coef_loop e s ists (c, ru)
     = Inr (\<lambda>i. if i \<in> set ists \<and> i \<noteq> rstate s then c i * of_real (f i) else c i,
            ru - (\<Sum>i \<in> set ists - {rstate s}.
                    cnj (c i * of_real (f i)) * (c i * of_real (f i))))"
  using assms
proof (induction ists arbitrary: c ru)
  case Nil
  then show ?case by simp
next
  case (Cons ist ists)
  let ?r = "rstate s"
  let ?t = "\<lambda>c i. cnj (c i * of_real (f i)) * (c i * complex_of_real (f i))"
  from Cons.prems have nin: "ist \<notin> set ists" and d: "distinct ists"
    and fin: "\<forall>i \<in> set ists. i \<noteq> ?r \<longrightarrow> exp_tau e s i = Fin (f i)"
    by simp_all
  show ?case
  proof (cases "ist = ?r")
    case True
    then have "set (ist # ists) - {?r} = set ists - {?r}" by auto
    moreover have "(\<lambda>i. if i \<in> set (ist # ists) \<and> i \<noteq> ?r then c i * of_real (f i) else c i)
        = (\<lambda>i. if i \<in> set ists \<and> i \<noteq> ?r then c i * of_real (f i) else c i)"
      using True by auto
    ultimately show ?thesis using True Cons.IH [OF fin d, of c ru] by simp
  next
    case False
    let ?c' = "c(ist := c ist * of_real (f ist))"
    from False Cons.prems(1) have ft: "exp_tau e s ist = Fin (f ist)" by simp
    have step: "edc_coef_loop e s (ist # ists) (c, ru)
        = edc_coef_loop e s ists (?c', ru - cnj (?c' ist) * ?c' ist)"
      using False ft by (simp add: Let_def)
    have fn: "(\<lambda>i. if i \<in> set ists \<and> i \<noteq> ?r then ?c' i * of_real (f i) else ?c' i)
        = (\<lambda>i. if i \<in> set (ist # ists) \<and> i \<noteq> ?r then c i * of_real (f i) else c i)"
      using nin False by (intro ext) auto
    have "(\<Sum>i \<in> set ists - {?r}. ?t ?c' i) = (\<Sum>i \<in> set ists - {?r}. ?t c i)"
      using nin by (intro sum.cong) auto
    moreover have "set (ist # ists) - {?r} = insert ist (set ists - {?r})"
      using False by auto
    moreover have "ist \<notin> set ists - {?r}" using nin by simp
    ultimately have sm: "ru - cnj (?c' ist) * ?c' ist - (\<Sum>i \<in> set ists - {?r}. ?t ?c' i)
        = ru - (\<Sum>i \<in> set (ist # ists) - {?r}. ?t c i)"
      by simp
    note ih = Cons.IH [OF fin d, of ?c' "ru - cnj (?c' ist) * ?c' ist"]
    show ?thesis unfolding step ih fn sm by (rule refl)
  qed
qed

lemma rho_row_loop_diag:
  "rho_row_loop c ist jsts rh i i
     = (if i = ist \<and> ist \<in> set jsts then cnj (c i) * c i else rh i i)"
proof (induction jsts arbitrary: rh)
  case Nil
  then show ?case by simp
next
  case (Cons jst jsts)
  let ?rh1 = "rh(ist := (rh ist)(jst := cnj (c ist) * c jst))"
  let ?rh2 = "?rh1(jst := (?rh1 jst)(ist := cnj (?rh1 ist jst)))"
  have d: "?rh2 i i = (if i = ist \<and> ist = jst then cnj (c i) * c i else rh i i)"
    by (auto simp: mult.commute)
  have "rho_row_loop c ist (jst # jsts) rh i i = rho_row_loop c ist jsts ?rh2 i i"
    by (simp add: Let_def)
  also have "\<dots> = (if i = ist \<and> ist \<in> set jsts then cnj (c i) * c i else ?rh2 i i)"
    by (rule Cons.IH)
  finally show ?case using d by auto
qed

lemma rho_loop_diag:
  "rho_loop c n ists rh i i
     = (if i \<in> set ists \<and> i < n then cnj (c i) * c i else rh i i)"
proof (induction ists arbitrary: rh)
  case Nil
  then show ?case by simp
next
  case (Cons ist ists)
  have "rho_loop c n (ist # ists) rh i i
      = rho_loop c n ists (rho_row_loop c ist [ist..<n] rh) i i"
    by simp
  also have "\<dots> = (if i \<in> set ists \<and> i < n then cnj (c i) * c i
                   else rho_row_loop c ist [ist..<n] rh i i)"
    by (rule Cons.IH)
  finally show ?case by (auto simp: rho_row_loop_diag)
qed


lemma cnj_mult_self: "cnj z * z = complex_of_real ((cmod z)\<^sup>2)"
  using complex_norm_square [of z] by (simp only: mult.commute)

lemma edc_population:
  assumes "elec_object e = Coefficient" and "rstate s < nst e"
    and "rho s (rstate s) (rstate s) \<noteq> 0"
    and "\<forall>i<nst e. i \<noteq> rstate s \<longrightarrow> exp_tau e s i = Fin (f i)"
  defines "S \<equiv> \<Sum>i \<in> {..<nst e} - {rstate s}. (cmod (coef s i) * f i)\<^sup>2"
  shows "\<exists>s'. correct_dec_edc e s = Inr s'
     \<and> population e s'
         = complex_of_real (S + (cmod (coef s (rstate s)))\<^sup>2
              * cmod ((1 - complex_of_real S) / rho s (rstate s) (rstate s)))"
proof -
  let ?r = "rstate s"
  let ?n = "nst e"
  let ?A = "{..<?n} - {?r}"
  let ?c1 = "\<lambda>i. if i \<in> set [0..<?n] \<and> i \<noteq> ?r then coef s i * of_real (f i) else coef s i"
  have sq: "cnj (coef s i * of_real (f i)) * (coef s i * of_real (f i))
      = complex_of_real ((cmod (coef s i) * f i)\<^sup>2)" for i
  proof -
    have "cnj (coef s i * of_real (f i)) * (coef s i * of_real (f i))
        = cnj (coef s i) * coef s i * (complex_of_real (f i))\<^sup>2"
      by (simp add: power2_eq_square)
    also have "\<dots> = complex_of_real ((cmod (coef s i))\<^sup>2) * (complex_of_real (f i))\<^sup>2"
      by (simp only: cnj_mult_self)
    finally show ?thesis by (simp add: power_mult_distrib)
  qed
  have "set [0..<?n] - {?r} = ?A" by auto
  then have "(\<Sum>i \<in> set [0..<?n] - {?r}.
        cnj (coef s i * of_real (f i)) * (coef s i * of_real (f i)))
      = (\<Sum>i \<in> ?A. complex_of_real ((cmod (coef s i) * f i)\<^sup>2))"
    by (simp only: sq)
  also have "\<dots> = complex_of_real S"
    unfolding S_def by (rule of_real_sum [symmetric])
  finally have ru: "1 - (\<Sum>i \<in> set [0..<?n] - {?r}.
        cnj (coef s i * of_real (f i)) * (coef s i * of_real (f i))) = 1 - complex_of_real S"
    by (simp only:)
  have "\<forall>i \<in> set [0..<?n]. i \<noteq> ?r \<longrightarrow> exp_tau e s i = Fin (f i)"
    using assms(4) by simp
  from edc_coef_loop_result [OF this, of "coef s" 1]
  have loop: "edc_coef_loop e s [0..<?n] (coef s, 1) = Inr (?c1, 1 - complex_of_real S)"
    unfolding ru by simp
  let ?z = "csqrt ((1 - complex_of_real S) / rho s ?r ?r)"
  let ?c2 = "?c1(?r := ?c1 ?r * ?z)"
  let ?s' = "s\<lparr>coef := ?c2, rho := rho_loop ?c2 ?n [0..<?n] (rho s)\<rparr>"
  have res: "correct_dec_edc e s = Inr ?s'"
    using assms(1,3) loop by (simp add: correct_dec_edc_def Let_def)
  have diag: "rho ?s' i i = cnj (?c2 i) * ?c2 i" if "i < ?n" for i
    using that by (simp add: rho_loop_diag)
  have pop: "population e ?s' = (\<Sum>i<?n. cnj (?c2 i) * ?c2 i)"
    unfolding population_def by (intro sum.cong refl) (simp add: rho_loop_diag)
  have split: "(\<Sum>i<?n. cnj (?c2 i) * ?c2 i)
      = cnj (?c2 ?r) * ?c2 ?r + (\<Sum>i \<in> ?A. cnj (?c2 i) * ?c2 i)"
    using assms(2) by (intro sum.remove) simp_all
  have rest: "(\<Sum>i \<in> ?A. cnj (?c2 i) * ?c2 i) = complex_of_real S"
  proof -
    have "cnj (?c2 i) * ?c2 i = complex_of_real ((cmod (coef s i) * f i)\<^sup>2)"
      if "i \<in> ?A" for i
    proof -
      from that have "?c2 i = coef s i * of_real (f i)" by simp
      then show ?thesis by (simp only: sq)
    qed
    then have "(\<Sum>i \<in> ?A. cnj (?c2 i) * ?c2 i)
        = (\<Sum>i \<in> ?A. complex_of_real ((cmod (coef s i) * f i)\<^sup>2))"
      by (intro sum.cong refl)
    also have "\<dots> = complex_of_real S"
      unfolding S_def by (rule of_real_sum [symmetric])
    finally show ?thesis .
  qed
  have "(cmod ?z)\<^sup>2 = cmod (?z\<^sup>2)" by (simp add: norm_power)
  then have nz: "(cmod ?z)\<^sup>2 = cmod ((1 - complex_of_real S) / rho s ?r ?r)" by simp
  have "?c2 ?r = coef s ?r * ?z" by simp
  then have "cnj (?c2 ?r) * ?c2 ?r = complex_of_real ((cmod (coef s ?r * ?z))\<^sup>2)"
    by (simp only: cnj_mult_self)
  also have "(cmod (coef s ?r * ?z))\<^sup>2
      = (cmod (coef s ?r))\<^sup>2 * cmod ((1 - complex_of_real S) / rho s ?r ?r)"
    by (simp add: norm_mult power_mult_distrib nz)
  finally have first: "cnj (?c2 ?r) * ?c2 ?r
      = complex_of_real ((cmod (coef s ?r))\<^sup>2 * cmod ((1 - complex_of_real S) / rho s ?r ?r))" .
  have "population e ?s'
      = complex_of_real (S + (cmod (coef s ?r))\<^sup>2 * cmod ((1 - complex_of_real S) / rho s ?r ?r))"
    unfolding pop split first rest by simp
  with res show ?thesis by blast
qed

lemma rho_row_loop_entry:
  "rho_row_loop c ist jsts rh a b
     = (if (a = ist \<and> b \<in> set jsts) \<or> (b = ist \<and> a \<in> set jsts)
        then cnj (c a) * c b else rh a b)"
proof (induction jsts arbitrary: rh)
  case Nil
  then show ?case by simp
next
  case (Cons jst jsts)
  let ?rh1 = "rh(ist := (rh ist)(jst := cnj (c ist) * c jst))"
  let ?rh2 = "?rh1(jst := (?rh1 jst)(ist := cnj (?rh1 ist jst)))"
  have d: "?rh2 a b = (if (a = ist \<and> b = jst) \<or> (b = ist \<and> a = jst)
                       then cnj (c a) * c b else rh a b)"
    by (auto simp: mult.commute)
  have "rho_row_loop c ist (jst # jsts) rh a b = rho_row_loop c ist jsts ?rh2 a b"
    by (simp add: Let_def)
  also have "\<dots> = (if (a = ist \<and> b \<in> set jsts) \<or> (b = ist \<and> a \<in> set jsts)
                   then cnj (c a) * c b else ?rh2 a b)"
    by (rule Cons.IH)
  finally show ?case unfolding d by auto
qed

lemma rho_loop_entry:
  "rho_loop c n ists rh a b
     = (if \<exists>ist \<in> set ists. (a = ist \<and> b \<in> set [ist..<n]) \<or> (b = ist \<and> a \<in> set [ist..<n])
        then cnj (c a) * c b else rh a b)"
proof (induction ists arbitrary: rh)
  case Nil
  then show ?case by simp
next
  case (Cons ist ists)
  have "rho_loop c n (ist # ists) rh a b
      = rho_loop c n ists (rho_row_loop c ist [ist..<n] rh) a b"
    by simp
  also have "\<dots> = (if \<exists>k \<in> set ists. (a = k \<and> b \<in> set [k..<n]) \<or> (b = k \<and> a \<in> set [k..<n])
                   then cnj (c a) * c b else rho_row_loop c ist [ist..<n] rh a b)"
    by (rule Cons.IH)
  finally show ?case unfolding rho_row_loop_entry by auto
qed

lemma rho_loop_full:
  assumes "a < n" and "b < n"
  shows "rho_loop c n [0..<n] rh a b = cnj (c a) * c b"
proof -
  have "\<exists>ist \<in> set [0..<n]. (a = ist \<and> b \<in> set [ist..<n]) \<or> (b = ist \<and> a \<in> set [ist..<n])"
  proof (cases "a \<le> b")
    case True
    with assms show ?thesis by (intro bexI [of _ a]) simp_all
  next
    case False
    with assms show ?thesis by (intro bexI [of _ b]) simp_all
  qed
  then show ?thesis unfolding rho_loop_entry by simp
qed

lemma edc_result:
  assumes "elec_object e = Coefficient" and "rstate s < nst e"
    and "rho s (rstate s) (rstate s) \<noteq> 0"
    and "\<forall>i<nst e. i \<noteq> rstate s \<longrightarrow> exp_tau e s i = Fin (f i)"
  shows "\<exists>s'. correct_dec_edc e s = Inr s' \<and> s' = s\<lparr>coef := coef s', rho := rho s'\<rparr>
     \<and> (\<forall>i<nst e. i \<noteq> rstate s \<longrightarrow> coef s' i = coef s i * complex_of_real (f i))
     \<and> coef s' (rstate s) = coef s (rstate s)
          * csqrt ((1 - (\<Sum>i \<in> {..<nst e} - {rstate s}. cnj (coef s' i) * coef s' i))
                   / rho s (rstate s) (rstate s))
     \<and> (\<forall>i<nst e. \<forall>j<nst e. rho s' i j = cnj (coef s' i) * coef s' j)"
proof -
  let ?r = "rstate s"
  let ?n = "nst e"
  let ?A = "{..<?n} - {?r}"
  let ?c1 = "\<lambda>i. if i \<in> set [0..<?n] \<and> i \<noteq> ?r then coef s i * of_real (f i) else coef s i"
  let ?T = "\<Sum>i \<in> ?A. cnj (coef s i * of_real (f i)) * (coef s i * complex_of_real (f i))"
  have "set [0..<?n] - {?r} = ?A" by auto
  moreover have "\<forall>i \<in> set [0..<?n]. i \<noteq> ?r \<longrightarrow> exp_tau e s i = Fin (f i)"
    using assms(4) by simp
  from edc_coef_loop_result [OF this, of "coef s" 1]
  have "edc_coef_loop e s [0..<?n] (coef s, 1)
      = Inr (?c1, 1 - (\<Sum>i \<in> set [0..<?n] - {?r}.
               cnj (coef s i * of_real (f i)) * (coef s i * complex_of_real (f i))))"
    by simp
  ultimately have loop: "edc_coef_loop e s [0..<?n] (coef s, 1) = Inr (?c1, 1 - ?T)"
    by (simp only:)
  let ?z = "csqrt ((1 - ?T) / rho s ?r ?r)"
  let ?c2 = "?c1(?r := ?c1 ?r * ?z)"
  let ?s' = "s\<lparr>coef := ?c2, rho := rho_loop ?c2 ?n [0..<?n] (rho s)\<rparr>"
  have res: "correct_dec_edc e s = Inr ?s'"
    using assms(1,3) loop by (simp add: correct_dec_edc_def Let_def)
  have frame: "?s' = s\<lparr>coef := coef ?s', rho := rho ?s'\<rparr>" by simp
  have others: "\<forall>i<?n. i \<noteq> ?r \<longrightarrow> coef ?s' i = coef s i * complex_of_real (f i)"
    by simp
  have "(\<Sum>i \<in> ?A. cnj (coef ?s' i) * coef ?s' i) = ?T"
    by (intro sum.cong refl) simp
  then have run: "coef ?s' ?r = coef s ?r
      * csqrt ((1 - (\<Sum>i \<in> ?A. cnj (coef ?s' i) * coef ?s' i)) / rho s ?r ?r)"
    by (simp only:) simp
  have rebuilt: "\<forall>i<?n. \<forall>j<?n. rho ?s' i j = cnj (coef ?s' i) * coef ?s' j"
    by (simp add: rho_loop_full)
  show ?thesis
    apply (rule exI [of _ ?s'])
    apply (intro conjI)
    apply (fact res frame others run rebuilt)+
    done
qed

lemma exp_tau_decay:
  assumes "0 < ekin_qm s" and "0 \<le> dt e" and "0 \<le> edc_parameter e" and "i \<noteq> rstate s"
  shows "exp_tau e s i = Fin (edc_factor e s i) \<and> 0 < edc_factor e s i \<and> edc_factor e s i \<le> 1"
proof -
  let ?d = "\<bar>energy e i - energy e (rstate s)\<bar>"
  let ?n = "1 + edc_parameter e / ekin_qm s"
  from assms have n: "0 < ?n" by (simp add: add_pos_nonneg)
  have t1: "xadd (Fin 1) (xdiv (Fin (edc_parameter e)) (Fin (ekin_qm s))) = Fin ?n"
    using assms(1) by simp
  show ?thesis
  proof (cases "energy e i = energy e (rstate s)")
    case True
    then have "exp_tau e s i = Fin 1"
      using assms(4) n unfolding exp_tau_def t1 by simp
    with True show ?thesis by (simp add: edc_factor_def)
  next
    case False
    then have d: "0 < ?d" by simp
    with n have t: "0 < ?n / ?d" by simp
    have "exp_tau e s i = Fin (exp (- dt e / (?n / ?d)))"
      using assms(4) False t n unfolding exp_tau_def t1 by simp
    moreover have "- dt e / (?n / ?d) \<le> 0"
      using assms(2) t by (intro divide_nonpos_pos) simp_all
    ultimately show ?thesis using False by (simp add: edc_factor_def)
  qed
qed

text \<open>
  C8, as amended. When the electronic state is held as coefficients, the kinetic
  energy is positive, the time step and the energy parameter are not negative, the
  populations of the coefficients sum to at most one, and the running state has a
  coefficient other than zero whose population \<open>rho_a[rstate, rstate]\<close> holds, then
  \<open>correct_dec_edc\<close> returns a state that differs from the old one in the coefficients
  and the density matrix only, and in which: the coefficient of every state other than
  the running one is the old one times \<open>exp(- dt / tau)\<close>; the coefficient of the
  running state is the old one times the root of \<open>rho_update / rho_a[rstate, rstate]\<close>,
  where \<open>rho_update\<close> is one minus the populations of the other new coefficients, so
  that its population is one minus theirs; every entry \<open>rho_a[i, j]\<close> is the product of
  the conjugate of the new coefficient \<open>i\<close> and the new coefficient \<open>j\<close>; and the
  diagonal of the density matrix sums to one.
\<close>

theorem edc_population_one:
  assumes "elec_object e = Coefficient" and "rstate s < nst e"
    and "rho s (rstate s) (rstate s) = cnj (coef s (rstate s)) * coef s (rstate s)"
    and "coef s (rstate s) \<noteq> 0"
    and "(\<Sum>i<nst e. (cmod (coef s i))\<^sup>2) \<le> 1"
    and "0 < ekin_qm s" and "0 \<le> dt e" and "0 \<le> edc_parameter e"
  shows "\<exists>s'. correct_dec_edc e s = Inr s'
     \<and> s' = s\<lparr>coef := coef s', rho := rho s'\<rparr>
     \<and> (\<forall>i<nst e. i \<noteq> rstate s
           \<longrightarrow> coef s' i = coef s i * complex_of_real (edc_factor e s i))
     \<and> coef s' (rstate s) = coef s (rstate s)
          * csqrt ((1 - (\<Sum>i \<in> {..<nst e} - {rstate s}. cnj (coef s' i) * coef s' i))
                   / rho s (rstate s) (rstate s))
     \<and> (cmod (coef s' (rstate s)))\<^sup>2
          = 1 - (\<Sum>i \<in> {..<nst e} - {rstate s}. (cmod (coef s' i))\<^sup>2)
     \<and> (\<forall>i<nst e. \<forall>j<nst e. rho s' i j = cnj (coef s' i) * coef s' j)
     \<and> population e s' = 1"
proof -
  let ?r = "rstate s"
  let ?A = "{..<nst e} - {?r}"
  let ?p = "(cmod (coef s ?r))\<^sup>2"
  let ?f = "edc_factor e s"
  have fi: "exp_tau e s i = Fin (?f i) \<and> 0 < ?f i \<and> ?f i \<le> 1" if "i \<noteq> ?r" for i
    using exp_tau_decay [OF assms(6-8) that] .
  define S where "S = (\<Sum>i \<in> ?A. (cmod (coef s i) * ?f i)\<^sup>2)"
  have p: "0 < ?p" using assms(4) by simp
  have rr: "rho s ?r ?r = complex_of_real ?p"
    unfolding assms(3) by (rule cnj_mult_self)
  then have nz: "rho s ?r ?r \<noteq> 0" using p by simp
  have le: "(cmod (coef s i) * ?f i)\<^sup>2 \<le> (cmod (coef s i))\<^sup>2" if "i \<in> ?A" for i
  proof -
    from that fi [of i] have "0 < ?f i" "?f i \<le> 1" by simp_all
    then have "cmod (coef s i) * ?f i \<le> cmod (coef s i) * 1"
      by (intro mult_left_mono) simp_all
    moreover have "0 \<le> cmod (coef s i) * ?f i" using \<open>0 < ?f i\<close> by simp
    ultimately show ?thesis by (simp add: power_mono)
  qed
  have "S \<le> (\<Sum>i \<in> ?A. (cmod (coef s i))\<^sup>2)"
    unfolding S_def by (intro sum_mono le)
  also have "(\<Sum>i<nst e. (cmod (coef s i))\<^sup>2) = ?p + (\<Sum>i \<in> ?A. (cmod (coef s i))\<^sup>2)"
    using assms(2) by (intro sum.remove) simp_all
  then have "(\<Sum>i \<in> ?A. (cmod (coef s i))\<^sup>2) \<le> 1 - ?p" using assms(5) by simp
  finally have S: "S \<le> 1 - ?p" .
  have "(1 - complex_of_real S) / rho s ?r ?r = complex_of_real ((1 - S) / ?p)"
    unfolding rr by simp
  then have "cmod ((1 - complex_of_real S) / rho s ?r ?r) = \<bar>(1 - S) / ?p\<bar>"
    by (simp only: norm_of_real)
  also have "\<dots> = (1 - S) / ?p"
  proof -
    from S p have "0 \<le> 1 - S" by linarith
    with p have "0 \<le> (1 - S) / ?p" by (intro divide_nonneg_pos)
    then show ?thesis by (rule abs_of_nonneg)
  qed
  finally have one: "S + ?p * cmod ((1 - complex_of_real S) / rho s ?r ?r) = 1"
    using p by simp
  from fi have fin: "\<forall>i<nst e. i \<noteq> ?r \<longrightarrow> exp_tau e s i = Fin (?f i)" by simp
  from edc_result [OF assms(1,2) nz fin] obtain s' where
    res: "correct_dec_edc e s = Inr s'"
    and frame: "s' = s\<lparr>coef := coef s', rho := rho s'\<rparr>"
    and others: "\<forall>i<nst e. i \<noteq> ?r \<longrightarrow> coef s' i = coef s i * complex_of_real (?f i)"
    and run: "coef s' ?r = coef s ?r
        * csqrt ((1 - (\<Sum>i \<in> ?A. cnj (coef s' i) * coef s' i)) / rho s ?r ?r)"
    and rebuilt: "\<forall>i<nst e. \<forall>j<nst e. rho s' i j = cnj (coef s' i) * coef s' j"
    by blast
  from edc_population [OF assms(1,2) nz fin] res
  have "population e s'
      = complex_of_real (S + ?p * cmod ((1 - complex_of_real S) / rho s ?r ?r))"
    unfolding S_def by auto
  with one have pop: "population e s' = 1" by simp
  have "population e s' = (\<Sum>i<nst e. complex_of_real ((cmod (coef s' i))\<^sup>2))"
    unfolding population_def using rebuilt by (intro sum.cong refl) (simp add: cnj_mult_self)
  also have "\<dots> = complex_of_real (\<Sum>i<nst e. (cmod (coef s' i))\<^sup>2)"
    by (rule of_real_sum [symmetric])
  finally have "complex_of_real (\<Sum>i<nst e. (cmod (coef s' i))\<^sup>2) = 1"
    using pop by simp
  then have "(\<Sum>i<nst e. (cmod (coef s' i))\<^sup>2) = 1"
    by (simp only: of_real_eq_1_iff)
  moreover have "(\<Sum>i<nst e. (cmod (coef s' i))\<^sup>2)
      = (cmod (coef s' ?r))\<^sup>2 + (\<Sum>i \<in> ?A. (cmod (coef s' i))\<^sup>2)"
    using assms(2) by (intro sum.remove) simp_all
  ultimately have norm: "(cmod (coef s' ?r))\<^sup>2 = 1 - (\<Sum>i \<in> ?A. (cmod (coef s' i))\<^sup>2)"
    by linarith
  show ?thesis
    apply (rule exI [of _ s'])
    apply (intro conjI)
    apply (fact res frame others run norm rebuilt pop)+
    done
qed

theorem edc_population_one_witness:
  "elec_object (two_state_env Momentum Reverse) = Coefficient
   \<and> rstate (coef_state (3 / 5) (4 / 5)) < nst (two_state_env Momentum Reverse)
   \<and> coef (coef_state (3 / 5) (4 / 5)) 0 = 3 / 5
   \<and> rho (coef_state (3 / 5) (4 / 5)) 0 0 = 9 / 25
   \<and> (cmod (coef (coef_state (3 / 5) (4 / 5)) 0))\<^sup>2
       + (cmod (coef (coef_state (3 / 5) (4 / 5)) 1))\<^sup>2 = 1
   \<and> 0 < ekin_qm (coef_state (3 / 5) (4 / 5))
   \<and> 0 \<le> dt (two_state_env Momentum Reverse)
   \<and> 0 \<le> edc_parameter (two_state_env Momentum Reverse)
   \<and> edc_factor (two_state_env Momentum Reverse) (coef_state (3 / 5) (4 / 5)) 1
       = exp (- (5 / 12))
   \<and> (\<exists>s'. correct_dec_edc (two_state_env Momentum Reverse) (coef_state (3 / 5) (4 / 5)) = Inr s'
         \<and> coef s' 1 = 4 / 5 * complex_of_real (exp (- (5 / 12)))
         \<and> rho s' 1 1 = cnj (coef s' 1) * coef s' 1
         \<and> population (two_state_env Momentum Reverse) s' = 1)"
proof -
  let ?e = "two_state_env Momentum Reverse"
  let ?s = "coef_state (3 / 5) (4 / 5)"
  have n: "cmod (3 / 5) = 3 / 5" "cmod (4 / 5) = 4 / 5"
    by (simp_all add: norm_divide)
  have h: "elec_object ?e = Coefficient" "rstate ?s < nst ?e"
    "rho ?s (rstate ?s) (rstate ?s) = cnj (coef ?s (rstate ?s)) * coef ?s (rstate ?s)"
    "coef ?s (rstate ?s) \<noteq> 0"
    "(\<Sum>i<nst ?e. (cmod (coef ?s i))\<^sup>2) \<le> 1"
    "0 < ekin_qm ?s" "0 \<le> dt ?e" "0 \<le> edc_parameter ?e"
    by (simp_all add: input_defs lessThan_Suc eval_nat_numeral n)
  have c: "coef ?s 0 = 3 / 5" "rho ?s 0 0 = 9 / 25"
    "(cmod (coef ?s 0))\<^sup>2 + (cmod (coef ?s 1))\<^sup>2 = 1"
    by (simp_all add: input_defs n power2_eq_square)
  have f: "edc_factor ?e ?s 1 = exp (- (5 / 12))"
    by (simp add: edc_factor_def input_defs)
  have i: "(1::nat) < nst ?e" "1 \<noteq> rstate ?s" "coef ?s 1 = 4 / 5"
    by (simp_all add: input_defs)
  from edc_population_one [OF h] obtain s' where
    r: "correct_dec_edc ?e ?s = Inr s'"
    and o: "\<forall>i<nst ?e. i \<noteq> rstate ?s
           \<longrightarrow> coef s' i = coef ?s i * complex_of_real (edc_factor ?e ?s i)"
    and b: "\<forall>i<nst ?e. \<forall>j<nst ?e. rho s' i j = cnj (coef s' i) * coef s' j"
    and p: "population ?e s' = 1"
    by blast
  from o i f have c1: "coef s' 1 = 4 / 5 * complex_of_real (exp (- (5 / 12)))" by simp
  from b i(1) have r1: "rho s' 1 1 = cnj (coef s' 1) * coef s' 1" by simp
  from r c1 r1 p have "\<exists>s'. correct_dec_edc ?e ?s = Inr s'
         \<and> coef s' 1 = 4 / 5 * complex_of_real (exp (- (5 / 12)))
         \<and> rho s' 1 1 = cnj (coef s' 1) * coef s' 1
         \<and> population ?e s' = 1"
    by blast
  with h(1,2,6,7,8) c f show ?thesis by blast
qed

text \<open>
  Against C8 as stated, for three states of the coefficients and parameters. With a
  running state of coefficient zero the quotient \<open>rho_update / rho_a[rstate, rstate]\<close>
  is not a number. With coefficients \<open>1 + i\<close> and \<open>3\<close>, whose populations sum to eleven,
  the populations after the correction sum to seventeen. With normalised coefficients
  and the energy parameter \<open>- 1\<close> at a kinetic energy of one half, the other state grows
  by \<open>exp (1 / 2)\<close> and the populations sum to more than one.
\<close>

theorem edc_population_fails:
  "correct_dec_edc (two_state_env Momentum Reverse) (coef_state 0 1) = Inl NonFinite
   \<and> (\<exists>s'. correct_dec_edc degenerate_env (coef_state (1 + \<i>) 3) = Inr s'
         \<and> population degenerate_env s' = 17)
   \<and> (\<exists>s'. correct_dec_edc negative_env (coef_state (3 / 5) (4 / 5)) = Inr s'
         \<and> population negative_env s' \<noteq> 1)"
proof (intro conjI)
  show "correct_dec_edc (two_state_env Momentum Reverse) (coef_state 0 1) = Inl NonFinite"
    by (simp add: correct_dec_edc_def exp_tau_def input_defs eval_nat_numeral Let_def)
next
  let ?e = "degenerate_env"
  let ?s = "coef_state (1 + \<i>) 3"
  have rr: "rho ?s (rstate ?s) (rstate ?s) = 2"
    by (simp add: input_defs algebra_simps)
  have h: "elec_object ?e = Coefficient" "rstate ?s < nst ?e"
    "rho ?s (rstate ?s) (rstate ?s) \<noteq> 0"
    "\<forall>i<nst ?e. i \<noteq> rstate ?s \<longrightarrow> exp_tau ?e ?s i = Fin ((\<lambda>i. 1) i)"
    unfolding rr by (simp_all add: input_defs exp_tau_def)
  have S: "(\<Sum>i \<in> {..<nst ?e} - {rstate ?s}. (cmod (coef ?s i) * 1)\<^sup>2) = 9"
  proof -
    have "{..<nst ?e} - {rstate ?s} = {1}" by (auto simp: input_defs)
    then show ?thesis by (simp add: input_defs)
  qed
  have c: "coef ?s (rstate ?s) = 1 + \<i>" by (simp add: input_defs)
  have m: "(cmod (1 + \<i>))\<^sup>2 = 2" by (simp add: cmod_power2)
  have "cmod ((1 - complex_of_real 9) / 2) = 4"
    by (simp add: norm_divide)
  with m have v: "9 + (cmod (1 + \<i>))\<^sup>2 * cmod ((1 - complex_of_real 9) / 2) = 17"
    by simp
  from edc_population [OF h] obtain s' where
    r: "correct_dec_edc ?e ?s = Inr s'"
    and p: "population ?e s' = complex_of_real
        ((\<Sum>i \<in> {..<nst ?e} - {rstate ?s}. (cmod (coef ?s i) * 1)\<^sup>2)
         + (cmod (coef ?s (rstate ?s)))\<^sup>2
           * cmod ((1 - complex_of_real
                (\<Sum>i \<in> {..<nst ?e} - {rstate ?s}. (cmod (coef ?s i) * 1)\<^sup>2))
              / rho ?s (rstate ?s) (rstate ?s)))"
    by blast
  have "population ?e s' = 17" unfolding p S rr c v by simp
  with r show "\<exists>s'. correct_dec_edc ?e ?s = Inr s' \<and> population ?e s' = 17"
    by blast
next
  let ?e = "negative_env"
  let ?s = "coef_state (3 / 5) (4 / 5)"
  have rr: "rho ?s (rstate ?s) (rstate ?s) = 9 / 25"
    by (simp add: input_defs)
  have h: "elec_object ?e = Coefficient" "rstate ?s < nst ?e"
    "rho ?s (rstate ?s) (rstate ?s) \<noteq> 0"
    "\<forall>i<nst ?e. i \<noteq> rstate ?s \<longrightarrow> exp_tau ?e ?s i = Fin ((\<lambda>i. exp (1 / 2)) i)"
    unfolding rr by (simp_all add: input_defs exp_tau_def)
  define S where "S = (cmod (4 / 5) * exp (1 / 2))\<^sup>2"
  have sm: "(\<Sum>i \<in> {..<nst ?e} - {rstate ?s}. (cmod (coef ?s i) * exp (1 / 2))\<^sup>2) = S"
  proof -
    have "{..<nst ?e} - {rstate ?s} = {1}" by (auto simp: input_defs)
    then show ?thesis by (simp add: input_defs S_def)
  qed
  have c0: "coef ?s (rstate ?s) = 3 / 5" by (simp add: input_defs)
  have "(exp (1 / 2 :: real))\<^sup>2 = exp 1"
    using exp_double [of "1 / 2 :: real"] by simp
  then have S: "S = 16 / 25 * exp 1"
    by (simp add: S_def norm_divide power_mult_distrib power2_eq_square)
  have "(2::real) \<le> exp 1" using exp_ge_add_one_self [of 1] by simp
  with S have big: "1 < S" by simp
  have "(1 - complex_of_real S) / (9 / 25) = complex_of_real ((1 - S) / (9 / 25))"
    by simp
  then have "cmod ((1 - complex_of_real S) / (9 / 25)) = \<bar>(1 - S) / (9 / 25)\<bar>"
    by (simp only: norm_of_real)
  also have "\<dots> = (S - 1) / (9 / 25)" using big by simp
  finally have c: "cmod ((1 - complex_of_real S) / (9 / 25)) = (S - 1) / (9 / 25)" .
  have q: "(cmod (3 / 5))\<^sup>2 = 9 / 25" by (simp add: norm_divide power2_eq_square)
  have "S + 9 / 25 * ((S - 1) / (9 / 25)) = 2 * S - 1" by simp
  then have e: "S + (cmod (3 / 5))\<^sup>2 * cmod ((1 - complex_of_real S) / (9 / 25)) = 2 * S - 1"
    by (simp only: q c)
  have "S + (cmod (3 / 5))\<^sup>2 * cmod ((1 - complex_of_real S) / (9 / 25)) \<noteq> 1"
    unfolding e using big by simp
  then have v: "complex_of_real (S + (cmod (3 / 5))\<^sup>2
      * cmod ((1 - complex_of_real S) / (9 / 25))) \<noteq> 1"
    by (simp only: of_real_eq_1_iff not_False_eq_True)
  from edc_population [OF h] obtain s' where
    r: "correct_dec_edc ?e ?s = Inr s'"
    and p: "population ?e s' = complex_of_real
        ((\<Sum>i \<in> {..<nst ?e} - {rstate ?s}. (cmod (coef ?s i) * exp (1 / 2))\<^sup>2)
         + (cmod (coef ?s (rstate ?s)))\<^sup>2
           * cmod ((1 - complex_of_real
                (\<Sum>i \<in> {..<nst ?e} - {rstate ?s}. (cmod (coef ?s i) * exp (1 / 2))\<^sup>2))
              / rho ?s (rstate ?s) (rstate ?s)))"
    by blast
  have "population ?e s' \<noteq> 1" unfolding p sm rr c0 by (rule v)
  with r show "\<exists>s'. correct_dec_edc ?e ?s = Inr s' \<and> population ?e s' \<noteq> 1"
    by blast
qed

section \<open>Where the rescaling conserves the energy\<close>

text \<open>
  The part of C1 that the code keeps. When a hop is accepted with the root of the
  quadratic added along the coupling (modes \<open>"velocity"\<close> and \<open>"momentum"\<close> with
  \<open>det \<ge> 0\<close>, mode \<open>"augment"\<close> with \<open>det > 0\<close>), the kinetic energy of the QM atoms after
  the hop plus the energy of the new state equals the kinetic energy before the hop plus
  the energy of the old state. \<open>mqc_qed/sh.py\<close> takes the sums for \<open>a\<close> and \<open>b\<close> over the QM
  atoms; \<open>mqc/sh.py\<close> takes them over all atoms, and the statement holds there when all
  atoms are QM atoms.
\<close>

lemma sumsq_shift:
  "length vr = length dr \<Longrightarrow>
     sumsq (map2 (\<lambda>c g. c + x * g) vr dr) = sumsq vr + 2 * x * dot dr vr + x * x * sumsq dr"
  by (induction vr dr rule: list_induct2) (simp_all add: sumsq_def dot_def algebra_simps)

lemma kinetic_add_rows:
  assumes "length m = length d" and "same_shape v d"
  shows "kinetic m (map2 (\<lambda>vr dr. map2 (\<lambda>c g. c + x * g) vr dr) v d)
     = kinetic m v + x * sum_list (map2 (*) m (map2 dot d v))
       + x * x / 2 * sum_list (map2 (\<lambda>mi dr. mi * sumsq dr) m d)"
proof -
  from assms(2) have l: "length d = length v" by (simp add: same_shape_def list_all2_lengthD)
  from assms(1) l assms(2) show ?thesis
  proof (induction m d v rule: list_induct3)
    case Nil
    then show ?case by (simp add: kinetic_def)
  next
    case (Cons mi m dr d vr v)
    from Cons.prems have sh: "same_shape v d" and lr: "length vr = length dr"
      by (simp_all add: same_shape_def)
    from Cons.IH [OF sh] sumsq_shift [OF lr, of x] show ?case
      by (simp add: kinetic_def algebra_simps)
  qed
qed

lemma kinetic_add_rows_mass:
  assumes "length m = length d" and "same_shape v d" and "0 \<notin> set m"
  shows "kinetic m (map2 (\<lambda>vr (dr, mi). map2 (\<lambda>c g. c + x * g / mi) vr dr) v (zip d m))
     = kinetic m v + x * sum_list (map2 dot d v)
       + x * x / 2 * sum_list (map2 (\<lambda>mi dr. 1 / mi * sumsq dr) m d)"
proof -
  from assms(2) have l: "length d = length v" by (simp add: same_shape_def list_all2_lengthD)
  from assms(1) l assms(2,3) show ?thesis
  proof (induction m d v rule: list_induct3)
    case Nil
    then show ?case by (simp add: kinetic_def)
  next
    case (Cons mi m dr d vr v)
    from Cons.prems have sh: "same_shape v d" and lr: "length vr = length dr"
      and nz: "mi \<noteq> 0" and rest: "0 \<notin> set m"
      by (auto simp: same_shape_def)
    have "map2 (\<lambda>c g. c + x * g / mi) vr dr = map2 (\<lambda>c g. c + (x / mi) * g) vr dr"
      by simp
    then have "sumsq (map2 (\<lambda>c g. c + x * g / mi) vr dr)
        = sumsq vr + 2 * (x / mi) * dot dr vr + (x / mi) * (x / mi) * sumsq dr"
      using sumsq_shift [OF lr, of "x / mi"] by simp
    then have "mi * sumsq (map2 (\<lambda>c g. c + x * g / mi) vr dr)
        = mi * sumsq vr + 2 * x * dot dr vr + x * x * (1 / mi * sumsq dr)"
      using nz by (simp add: field_simps)
    with Cons.IH [OF sh rest] show ?case
      by (simp add: kinetic_def algebra_simps)
  qed
qed

lemma quadratic_root:
  fixes a b c x :: real
  assumes "a \<noteq> 0" and "0 \<le> b * b - 4 * a * c"
    and "x = 0.5 * (- b - sqrt (b * b - 4 * a * c)) / a
         \<or> x = 0.5 * (- b + sqrt (b * b - 4 * a * c)) / a"
  shows "a * (x * x) + b * x + c = 0"
proof -
  let ?r = "sqrt (b * b - 4 * a * c)"
  have r: "?r * ?r = b * b - 4 * a * c" using assms(2) by simp
  from assms(3) have "2 * a * x + b = - ?r \<or> 2 * a * x + b = ?r"
    using assms(1) by (auto simp: field_simps)
  then have "(2 * a * x + b) * (2 * a * x + b) = ?r * ?r" by auto
  with r have "4 * a * (a * (x * x) + b * x + c) = 0" by (simp add: algebra_simps)
  with assms(1) show ?thesis by simp
qed


lemma same_shape_sym: "same_shape d v \<Longrightarrow> same_shape v d"
  unfolding same_shape_def by (simp add: list_all2_conv_all_nth)

lemma take_updated_rows:
  assumes "length rows = length (take n v)"
  shows "take n (rows @ drop n v) = rows"
proof (cases "n \<le> length v")
  case True
  with assms show ?thesis by simp
next
  case False
  with assms show ?thesis by simp
qed

lemma accepted_root_conserves:
  assumes body: "hop_body e mq vq slc s = Inr s'" and acc: "\<not> l_reject s'"
    and mq: "mq = take (nat_qm e) (mass e)" and vq: "vq = take (nat_qm e) (vel s)"
    and slc: "slc (nac e (rstate_old s) (rstate s)) = nac e (rstate_old s) (rstate s)"
    and q: "quadratic (vel_rescale e) mq (nac e (rstate_old s) (rstate s)) vq
              (energy e (rstate s) - energy e (rstate_old s)) = Inr (a, b, det)"
    and mode: "vel_rescale e = Velocity \<or> vel_rescale e = Momentum
               \<or> (vel_rescale e = Augment \<and> 0 < det)"
    and det: "0 \<le> det"
  shows "kinetic (take (nat_qm e) (mass e)) (take (nat_qm e) (vel s')) + energy e (rstate s)
     = kinetic (take (nat_qm e) (mass e)) (take (nat_qm e) (vel s)) + energy e (rstate_old s)"
proof -
  let ?n = "nat_qm e"
  let ?pd = "energy e (rstate s) - energy e (rstate_old s)"
  let ?d = "nac e (rstate_old s) (rstate s)"
  from hop_body_result [OF body] q acc slc obtain x where
    x: "accept_factor (vel_rescale e) (ekin_qm s) ?pd a b det = Inr x"
    and v: "rescale_vel (vel_rescale e) ?n x ?d (mass e) det (ekin_qm s) ?pd (vel s)
            = Inr (vel s')"
    by auto
  from mode det have nofall: "\<not> (vel_rescale e = Energy \<or> (det < 0 \<and> vel_rescale e = Augment))"
    by auto
  from x nofall det have a0: "a \<noteq> 0"
    and xr: "x = 0.5 * (- b - sqrt det) / a \<or> x = 0.5 * (- b + sqrt det) / a"
    by (auto simp: accept_factor_def np_sqrt_def np_div_def split: if_splits)
  from q mode have dt: "det = b * b - 4 * a * (2 * ?pd)"
    by (auto simp: quadratic_def split: sum.splits)
  from quadratic_root [OF a0 det [unfolded dt] xr [unfolded dt]]
  have root: "a * (x * x) + b * x + 2 * ?pd = 0" .
  have kin: "kinetic mq (take ?n (vel s')) = kinetic mq vq + x * (b / 2) + x * x / 2 * a"
  proof (cases "vel_rescale e = Velocity")
    case True
    with q have sh: "length mq = length ?d" "same_shape ?d vq"
      and a: "a = sum_list (map2 (\<lambda>mi dr. mi * sumsq dr) mq ?d)"
      and b: "b = 2 * sum_list (map2 (*) mq (map2 dot ?d vq))"
      by (auto simp: quadratic_def coeff_velocity_def split: sum.splits if_splits)
    let ?rows = "map2 (\<lambda>vr dr. map2 (\<lambda>c g. c + x * g) vr dr) vq ?d"
    from v True sh(2) have v': "vel s' = ?rows @ drop ?n (vel s)"
      by (simp add: rescale_vel_def add_rows_def vq same_shape_sym)
    have "length ?rows = length (take ?n (vel s))"
      using sh(2) by (simp add: vq same_shape_def list_all2_lengthD)
    from take_updated_rows [OF this] have "take ?n (vel s') = ?rows" by (simp add: v')
    with kinetic_add_rows [OF sh(1) same_shape_sym [OF sh(2)], of x] a b
    show ?thesis by simp
  next
    case False
    with mode have m: "vel_rescale e = Momentum \<or> vel_rescale e = Augment" by auto
    with q have sh: "length mq = length ?d" "same_shape ?d vq" "0 \<notin> set mq"
      and a: "a = sum_list (map2 (\<lambda>mi dr. 1 / mi * sumsq dr) mq ?d)"
      and b: "b = 2 * sum_list (map2 dot ?d vq)"
      by (auto simp: quadratic_def coeff_momentum_def split: sum.splits if_splits)
    let ?rows = "map2 (\<lambda>vr (dr, mi). map2 (\<lambda>c g. c + x * g / mi) vr dr) vq (zip ?d mq)"
    from v m mode sh have v': "vel s' = ?rows @ drop ?n (vel s)"
      by (auto simp: rescale_vel_def add_rows_mass_def vq mq same_shape_sym)
    have "length ?rows = length (take ?n (vel s))"
      using sh(1,2) by (simp add: vq same_shape_def list_all2_lengthD)
    from take_updated_rows [OF this] have "take ?n (vel s') = ?rows" by (simp add: v')
    with kinetic_add_rows_mass [OF sh(1) same_shape_sym [OF sh(2)] sh(3), of x] a b
    show ?thesis by simp
  qed
  have "x * (b / 2) + x * x / 2 * a = - ?pd" using root by (simp add: algebra_simps)
  with kin show ?thesis unfolding mq vq by simp
qed


lemma evaluate_hop_qed_conserves:
  assumes "l_hop s" and "\<not> l_trivial q" and "evaluate_hop_qed e q s = Inr s'"
    and "\<not> l_reject s'"
    and "quadratic (vel_rescale e) (take (nat_qm e) (mass e))
           (nac e (rstate_old s) (rstate s)) (take (nat_qm e) (vel s))
           (energy e (rstate s) - energy e (rstate_old s)) = Inr (a, b, det)"
    and "vel_rescale e = Velocity \<or> vel_rescale e = Momentum
         \<or> (vel_rescale e = Augment \<and> 0 < det)"
    and "0 \<le> det"
  shows "kinetic (take (nat_qm e) (mass e)) (take (nat_qm e) (vel s')) + energy e (rstate s')
     = kinetic (take (nat_qm e) (mass e)) (take (nat_qm e) (vel s)) + energy e (rstate_old s)"
proof -
  from evaluate_hop_qed_body [OF assms(1-3)] obtain s1 where
    b: "hop_body e (take (nat_qm e) (mass e)) (take (nat_qm e) (vel s)) (\<lambda>d. d) s = Inr s1"
    and s': "s' = (if rstate s1 \<noteq> rstate_old s1
               then s1\<lparr>event := event s1 @ [AcceptHop (rstate_old s1) (rstate s1)]\<rparr> else s1)"
    by blast
  from s' assms(4) have r: "\<not> l_reject s1" and v: "vel s' = vel s1" "rstate s' = rstate s1"
    by (simp_all split: if_splits)
  from hop_body_result [OF b] r have "rstate s1 = rstate s" by auto
  with accepted_root_conserves [OF b r refl refl refl assms(5-7)] v show ?thesis by simp
qed

lemma evaluate_hop_conserves:
  assumes "l_hop s" and "evaluate_hop e s = Inr s'" and "\<not> l_reject s'"
    and "length (mass e) \<le> nat_qm e"
    and "quadratic (vel_rescale e) (mass e) (nac e (rstate_old s) (rstate s)) (vel s)
           (energy e (rstate s) - energy e (rstate_old s)) = Inr (a, b, det)"
    and "vel_rescale e = Velocity \<or> vel_rescale e = Momentum
         \<or> (vel_rescale e = Augment \<and> 0 < det)"
    and "0 \<le> det"
  shows "kinetic (take (nat_qm e) (mass e)) (take (nat_qm e) (vel s')) + energy e (rstate s')
     = kinetic (take (nat_qm e) (mass e)) (take (nat_qm e) (vel s)) + energy e (rstate_old s)"
proof -
  let ?d = "nac e (rstate_old s) (rstate s)"
  from evaluate_hop_body [OF assms(1,2)] obtain s1 where
    b: "hop_body e (mass e) (vel s) (take (nat_qm e)) s = Inr s1"
    and s': "s' = (if rstate s1 \<noteq> rstate_old s1
               then s1\<lparr>event := event s1 @ [AcceptHop (rstate_old s1) (rstate s1)]\<rparr> else s1)"
    by blast
  from s' assms(3) have r: "\<not> l_reject s1" and v: "vel s' = vel s1" "rstate s' = rstate s1"
    by (simp_all split: if_splits)
  from assms(5,6) have "length (mass e) = length ?d" "same_shape ?d (vel s)"
    by (auto simp: quadratic_def coeff_velocity_def coeff_momentum_def
        split: sum.splits if_splits)
  then have l: "length ?d \<le> nat_qm e" "length (vel s) \<le> nat_qm e"
    using assms(4) by (simp_all add: same_shape_def list_all2_lengthD)
  have m: "mass e = take (nat_qm e) (mass e)" "vel s = take (nat_qm e) (vel s)"
    "take (nat_qm e) ?d = ?d"
    using assms(4) l by simp_all
  from hop_body_result [OF b] r have "rstate s1 = rstate s" by auto
  with accepted_root_conserves [OF b r m assms(5-7)] v show ?thesis by simp
qed

end
